theory Spec2Isabelle
  imports Main
begin

section \<open>Data model of \<open>carlosb::object_pool\<close>\<close>

text \<open>
  The pool (\<open>object_pool::impl\<close>) keeps two \<open>std::stack<_Tp*>\<close>: \<open>m_allocated_space\<close>, the
  raw slots that hold no object, and \<open>m_free_objects\<close>, the constructed objects nobody has
  borrowed. A stack is a list whose head is \<open>top()\<close>. Slots are addresses handed out by
  \<open>m_allocator.allocate(1)\<close>, which are never null, so a stack holds plain addresses; a
  \<open>_Tp*\<close> member that may be null or was never written (the \<open>m_obj\<close> of a handle) is a
  \<open>ptr\<close>.

  Modelling conventions:
  \<^item> every member function of \<open>impl\<close> runs under \<open>m_pool_mutex\<close>, so it is one atomic state
    transformer; \<open>notify_one\<close> changes no state;
  \<^item> memory is shared by all pools: \<open>allocate(1)\<close> returns the next unused address,
    placement \<open>new\<close> records the object at its address, a destructor call removes it.
    Running out of memory (\<open>std::bad_alloc\<close>) is outside the model;
  \<^item> \<open>size_type\<close> counters are natural numbers: every unit of \<open>m_capacity\<close> stands for an
    allocation that succeeded, so the counters stay far below the wrap-around of
    \<open>std::size_t\<close> (and of the \<open>int\<close> loop variable of \<open>reserve\<close>). The one subtraction
    that can wrap, in \<open>in_use\<close>, is written out modulo \<open>2 ^ 64\<close>;
  \<^item> \<open>top()\<close> or \<open>pop()\<close> on an empty \<open>std::stack\<close> is undefined behaviour: the model
    returns the error \<open>EmptyStackAccess\<close> there. Reading a pointer that was never written,
    or through a null pointer, is undefined too: the error \<open>BadPointerAccess\<close>.
    \<open>LogicError\<close> is the \<open>std::logic_error\<close> the handle throws.
\<close>

type_synonym addr = nat

type_synonym pool_ref = nat

datatype ptr = Indeterminate | Null | Ptr addr

datatype allocator = Allocator nat

datatype error = LogicError | EmptyStackAccess | BadPointerAccess

record 'a memory =
  next_free :: addr
  objects :: "addr \<rightharpoonup> 'a"

record 'a impl =
  m_managed_count :: nat
  m_capacity :: nat
  m_allocator :: allocator
  m_allocated_space :: "addr list"
  m_free_objects :: "addr list"

record acquired_object =
  m_obj :: ptr
  m_pool :: "pool_ref option"
  m_is_initialized :: bool

type_synonym 'a pools = "pool_ref \<rightharpoonup> 'a impl"

subsection \<open>Memory: the allocator, placement new, destructor calls\<close>

definition allocate1 :: "'a memory \<Rightarrow> addr \<times> 'a memory" where
  "allocate1 mem = (next_free mem, mem\<lparr>next_free := Suc (next_free mem)\<rparr>)"

definition construct :: "addr \<Rightarrow> 'a \<Rightarrow> 'a memory \<Rightarrow> 'a memory" where
  "construct obj v mem = mem\<lparr>objects := (objects mem)(obj \<mapsto> v)\<rparr>"

definition destruct :: "addr \<Rightarrow> 'a memory \<Rightarrow> 'a memory" where
  "destruct obj mem = mem\<lparr>objects := (objects mem)(obj := None)\<rparr>"

definition default_allocator :: allocator where
  "default_allocator = Allocator 0"

subsection \<open>\<open>acquired_object\<close>: constructors, dereference, comparison with \<open>none\<close>\<close>

text \<open>
  The three constructors of an empty handle set only \<open>m_is_initialized\<close>: \<open>m_pool\<close> is a
  default (null) \<open>shared_ptr\<close> and \<open>m_obj\<close> is left unwritten.
\<close>

definition acquired_object_default :: acquired_object where
  "acquired_object_default = \<lparr>m_obj = Indeterminate, m_pool = None, m_is_initialized = False\<rparr>"

definition acquired_object_none :: acquired_object where
  "acquired_object_none = \<lparr>m_obj = Indeterminate, m_pool = None, m_is_initialized = False\<rparr>"

definition acquired_object_nullptr :: acquired_object where
  "acquired_object_nullptr = \<lparr>m_obj = Indeterminate, m_pool = None, m_is_initialized = False\<rparr>"

definition acquired_object_lend :: "addr \<Rightarrow> pool_ref \<Rightarrow> acquired_object" where
  "acquired_object_lend obj lender =
     \<lparr>m_obj = Ptr obj, m_pool = Some lender, m_is_initialized = True\<rparr>"

text \<open>
  Moving copies the three members into the destination (\<open>taken_from\<close>) and leaves the
  source with a null pointer and the flag down (\<open>cleared\<close>); assigning \<open>none\<close> leaves
  \<open>*this\<close> in the same cleared state.
\<close>

definition taken_from :: "acquired_object \<Rightarrow> acquired_object" where
  "taken_from other =
     \<lparr>m_obj = m_obj other, m_pool = m_pool other, m_is_initialized = m_is_initialized other\<rparr>"

definition cleared :: acquired_object where
  "cleared = \<lparr>m_obj = Null, m_pool = None, m_is_initialized = False\<rparr>"

text \<open>The move constructor: the new handle, and what is left of \<open>other\<close>.\<close>

definition acquired_object_move :: "acquired_object \<Rightarrow> acquired_object \<times> acquired_object" where
  "acquired_object_move other = (taken_from other, cleared)"

text \<open>
  \<open>operator*\<close> yields a reference to the object, that is its address; \<open>operator->\<close> yields
  the pointer. Reading through a pointer that is null or was never written is undefined.
\<close>

definition op_star :: "acquired_object \<Rightarrow> error + addr" where
  "op_star h =
     (if \<not> m_is_initialized h then Inl LogicError
      else (case m_obj h of Ptr a \<Rightarrow> Inr a | Null \<Rightarrow> Inl BadPointerAccess
            | Indeterminate \<Rightarrow> Inl BadPointerAccess))"

definition op_arrow :: "acquired_object \<Rightarrow> error + ptr" where
  "op_arrow h = (if \<not> m_is_initialized h then Inl LogicError else Inr (m_obj h))"

definition op_eq_none :: "acquired_object \<Rightarrow> bool" where
  "op_eq_none h = (\<not> m_is_initialized h)"

definition op_ne_none :: "acquired_object \<Rightarrow> bool" where
  "op_ne_none h = (\<not> op_eq_none h)"

definition op_bool :: "acquired_object \<Rightarrow> bool" where
  "op_bool h = m_is_initialized h"

subsection \<open>\<open>impl\<close>: construction\<close>

text \<open>The loop \<open>m_allocated_space.push(m_allocator.allocate(1))\<close>, run \<open>n\<close> times.\<close>

fun push_fresh_slots :: "nat \<Rightarrow> addr list \<Rightarrow> 'a memory \<Rightarrow> addr list \<times> 'a memory" where
  "push_fresh_slots 0 space mem = (space, mem)"
| "push_fresh_slots (Suc n) space mem =
     (case allocate1 mem of (slot, mem') \<Rightarrow> push_fresh_slots n (slot # space) mem')"

text \<open>The loop of the counted constructors: allocate, construct a copy, push as free.\<close>

fun push_fresh_objects :: "nat \<Rightarrow> 'a \<Rightarrow> addr list \<Rightarrow> 'a memory \<Rightarrow> addr list \<times> 'a memory" where
  "push_fresh_objects 0 v free mem = (free, mem)"
| "push_fresh_objects (Suc n) v free mem =
     (case allocate1 mem of (obj, mem') \<Rightarrow>
        push_fresh_objects n v (obj # free) (construct obj v mem'))"

definition impl_alloc :: "allocator \<Rightarrow> 'a memory \<Rightarrow> 'a impl \<times> 'a memory" where
  "impl_alloc alloc mem =
     (case push_fresh_slots 4 [] mem of (space, mem') \<Rightarrow>
        (\<lparr>m_managed_count = 0, m_capacity = 4, m_allocator = alloc,
          m_allocated_space = space, m_free_objects = []\<rparr>, mem'))"

definition impl_count_value :: "nat \<Rightarrow> 'a \<Rightarrow> allocator \<Rightarrow> 'a memory \<Rightarrow> 'a impl \<times> 'a memory" where
  "impl_count_value count v alloc mem =
     (case push_fresh_objects count v [] mem of (free, mem') \<Rightarrow>
        (\<lparr>m_managed_count = count, m_capacity = count, m_allocator = alloc,
          m_allocated_space = [], m_free_objects = free\<rparr>, mem'))"

text \<open>
  \<open>impl(count, alloc)\<close> differs from \<open>impl(count, value, alloc)\<close> only in constructing
  \<open>_Tp()\<close>; the value of \<open>_Tp()\<close> is the parameter \<open>tp_default\<close>.
\<close>

definition impl_count :: "'a \<Rightarrow> nat \<Rightarrow> allocator \<Rightarrow> 'a memory \<Rightarrow> 'a impl \<times> 'a memory" where
  "impl_count tp_default count alloc mem = impl_count_value count tp_default alloc mem"

text \<open>The front end: \<open>object_pool()\<close> delegates to \<open>object_pool(_Allocator())\<close>.\<close>

definition object_pool_alloc :: "allocator \<Rightarrow> 'a memory \<Rightarrow> 'a impl \<times> 'a memory" where
  "object_pool_alloc alloc mem = impl_alloc alloc mem"

definition object_pool_default :: "'a memory \<Rightarrow> 'a impl \<times> 'a memory" where
  "object_pool_default mem = object_pool_alloc default_allocator mem"

subsection \<open>\<open>impl\<close>: introspection\<close>

definition size_impl :: "'a impl \<Rightarrow> nat" where
  "size_impl p = length (m_free_objects p)"

definition managed_count :: "'a impl \<Rightarrow> nat" where
  "managed_count p = m_managed_count p"

definition capacity :: "'a impl \<Rightarrow> nat" where
  "capacity p = m_capacity p"

definition in_use :: "'a impl \<Rightarrow> bool" where
  "in_use p = (0 < (int (m_managed_count p) - int (length (m_free_objects p))) mod 2 ^ 64)"

definition empty_impl :: "'a impl \<Rightarrow> bool" where
  "empty_impl p = (m_free_objects p = [])"

definition bool_impl :: "'a impl \<Rightarrow> bool" where
  "bool_impl p = (0 < size_impl p)"

subsection \<open>\<open>impl\<close>: acquisition\<close>

text \<open>
  \<open>this\<close> is the identity of the pool, what \<open>shared_from_this()\<close> returns. The named
  local \<open>obj\<close> leaves through \<open>return std::move(obj)\<close>, the move constructor.
\<close>

definition acquire :: "pool_ref \<Rightarrow> 'a impl \<Rightarrow> acquired_object \<times> 'a impl" where
  "acquire this p =
     (case m_free_objects p of
        [] \<Rightarrow> (acquired_object_none, p)
      | obj # rest \<Rightarrow>
          (fst (acquired_object_move (acquired_object_lend obj this)),
           p\<lparr>m_free_objects := rest\<rparr>))"

definition allocate ::
  "pool_ref \<Rightarrow> 'a \<Rightarrow> 'a impl \<Rightarrow> 'a memory \<Rightarrow> acquired_object \<times> 'a impl \<times> 'a memory" where
  "allocate this v p mem =
     (case m_free_objects p of
        [] \<Rightarrow>
          (case allocate1 mem of (obj, mem') \<Rightarrow>
             (acquired_object_lend obj this,
              p\<lparr>m_managed_count := Suc (m_managed_count p)\<rparr>,
              construct obj v mem'))
      | obj # rest \<Rightarrow>
          (fst (acquired_object_move (acquired_object_lend obj this)),
           p\<lparr>m_free_objects := rest\<rparr>, mem))"

definition return_object :: "addr \<Rightarrow> 'a impl \<Rightarrow> 'a impl" where
  "return_object obj p = p\<lparr>m_free_objects := obj # m_free_objects p\<rparr>"

subsection \<open>\<open>impl\<close>: growth\<close>

definition reallocate :: "nat \<Rightarrow> 'a impl \<Rightarrow> 'a memory \<Rightarrow> 'a impl \<times> 'a memory" where
  "reallocate new_cap p mem =
     (case push_fresh_slots (new_cap - m_capacity p) (m_allocated_space p) mem of
        (space, mem') \<Rightarrow> (p\<lparr>m_allocated_space := space, m_capacity := new_cap\<rparr>, mem'))"

definition reserve :: "nat \<Rightarrow> 'a impl \<Rightarrow> 'a memory \<Rightarrow> 'a impl \<times> 'a memory" where
  "reserve new_cap p mem =
     (if new_cap > m_capacity p then
        (case push_fresh_slots (new_cap - m_capacity p) (m_allocated_space p) mem of
           (space, mem') \<Rightarrow> (p\<lparr>m_allocated_space := space, m_capacity := new_cap\<rparr>, mem'))
      else (p, mem))"

text \<open>
  \<open>push(const&)\<close>, \<open>push(&&)\<close> and \<open>emplace(args...)\<close> have the same body; they differ in
  how the new object is built, which the model receives as the value \<open>v\<close>.
\<close>

definition push :: "'a \<Rightarrow> 'a impl \<Rightarrow> 'a memory \<Rightarrow> error + 'a impl \<times> 'a memory" where
  "push v p mem =
     (case (if m_managed_count p = m_capacity p then reallocate (m_capacity p * 2) p mem
            else (p, mem)) of
        (p1, mem1) \<Rightarrow>
          (case m_allocated_space p1 of
             [] \<Rightarrow> Inl EmptyStackAccess
           | obj # rest \<Rightarrow>
               Inr (p1\<lparr>m_allocated_space := rest,
                       m_free_objects := obj # m_free_objects p1,
                       m_managed_count := Suc (m_managed_count p1)\<rparr>,
                    construct obj v mem1)))"

definition emplace :: "'a \<Rightarrow> 'a impl \<Rightarrow> 'a memory \<Rightarrow> error + 'a impl \<times> 'a memory" where
  "emplace v p mem = push v p mem"

subsection \<open>\<open>impl\<close>: resize\<close>

text \<open>
  The growing loop of \<open>resize\<close>, run \<open>n\<close> times: take a slot from \<open>m_allocated_space\<close>,
  construct into it, push it as free. The slot stack is not checked.
\<close>

fun resize_grow :: "nat \<Rightarrow> 'a \<Rightarrow> 'a impl \<Rightarrow> 'a memory \<Rightarrow> error + 'a impl \<times> 'a memory" where
  "resize_grow 0 v p mem = Inr (p, mem)"
| "resize_grow (Suc n) v p mem =
     (case m_allocated_space p of
        [] \<Rightarrow> Inl EmptyStackAccess
      | obj # rest \<Rightarrow>
          resize_grow n v
            (p\<lparr>m_allocated_space := rest, m_free_objects := obj # m_free_objects p\<rparr>)
            (construct obj v mem))"

text \<open>
  The shrinking loop, run \<open>n\<close> times: destruct the top free object, push its slot onto
  \<open>m_allocated_space\<close>, pop it.
\<close>

fun resize_shrink :: "nat \<Rightarrow> 'a impl \<Rightarrow> 'a memory \<Rightarrow> error + 'a impl \<times> 'a memory" where
  "resize_shrink 0 p mem = Inr (p, mem)"
| "resize_shrink (Suc n) p mem =
     (case m_free_objects p of
        [] \<Rightarrow> Inl EmptyStackAccess
      | obj # rest \<Rightarrow>
          resize_shrink n
            (p\<lparr>m_allocated_space := obj # m_allocated_space p, m_free_objects := rest\<rparr>)
            (destruct obj mem))"

definition set_managed_count ::
  "nat \<Rightarrow> error + 'a impl \<times> 'a memory \<Rightarrow> error + 'a impl \<times> 'a memory" where
  "set_managed_count count r =
     (case r of Inl e \<Rightarrow> Inl e | Inr (p, mem) \<Rightarrow> Inr (p\<lparr>m_managed_count := count\<rparr>, mem))"

text \<open>\<open>resize(count, value)\<close>; the loops run from \<open>size\<close> to \<open>count\<close> and from \<open>count\<close> to \<open>size\<close>.\<close>

definition resize_value ::
  "nat \<Rightarrow> 'a \<Rightarrow> 'a impl \<Rightarrow> 'a memory \<Rightarrow> error + 'a impl \<times> 'a memory" where
  "resize_value count v p mem =
     (let size = length (m_free_objects p) in
      if count > size then
        (case (if count > m_capacity p then reallocate count p mem else (p, mem)) of
           (p1, mem1) \<Rightarrow> set_managed_count count (resize_grow (count - size) v p1 mem1))
      else set_managed_count count (resize_shrink (size - count) p mem))"

text \<open>\<open>resize(count)\<close> is the same text with \<open>_Tp()\<close>, the parameter \<open>tp_default\<close>, for the value.\<close>

definition resize :: "'a \<Rightarrow> nat \<Rightarrow> 'a impl \<Rightarrow> 'a memory \<Rightarrow> error + 'a impl \<times> 'a memory" where
  "resize tp_default count p mem = resize_value count tp_default p mem"

subsection \<open>\<open>impl\<close>: swap\<close>

definition swap_impl :: "'a impl \<Rightarrow> 'a impl \<Rightarrow> 'a impl \<times> 'a impl" where
  "swap_impl this other =
     (this\<lparr>m_managed_count := m_managed_count other, m_capacity := m_capacity other,
           m_free_objects := m_free_objects other, m_allocator := m_allocator other\<rparr>,
      other\<lparr>m_managed_count := m_managed_count this, m_capacity := m_capacity this,
            m_free_objects := m_free_objects this, m_allocator := m_allocator this\<rparr>)"

subsection \<open>Returning a lent object: \<open>deleter\<close> and the handle's release paths\<close>

text \<open>
  The pools that exist are a map from their identity; \<open>m_pool_ptr.lock()\<close> succeeds when
  the pool is there. \<open>if (ptr)\<close> reads the pointer.
\<close>

definition deleter :: "pool_ref option \<Rightarrow> ptr \<Rightarrow> 'a pools \<Rightarrow> error + 'a pools" where
  "deleter pool_ptr p pools =
     (case p of
        Indeterminate \<Rightarrow> Inl BadPointerAccess
      | Null \<Rightarrow> Inr pools
      | Ptr obj \<Rightarrow>
          (case pool_ptr of
             None \<Rightarrow> Inr pools
           | Some r \<Rightarrow>
               (case pools r of
                  None \<Rightarrow> Inr pools
                | Some pool \<Rightarrow> Inr (pools(r \<mapsto> return_object obj pool)))))"

definition release :: "acquired_object \<Rightarrow> 'a pools \<Rightarrow> error + 'a pools" where
  "release h pools =
     (if m_is_initialized h then deleter (m_pool h) (m_obj h) pools else Inr pools)"

text \<open>\<open>~acquired_object()\<close>.\<close>

definition acquired_object_destroy :: "acquired_object \<Rightarrow> 'a pools \<Rightarrow> error + 'a pools" where
  "acquired_object_destroy h pools = release h pools"

text \<open>\<open>operator=(acquired_object&&)\<close>: the new \<open>*this\<close>, what is left of \<open>other\<close>, the pools.\<close>

definition assign_move ::
  "acquired_object \<Rightarrow> acquired_object \<Rightarrow> 'a pools \<Rightarrow>
   error + acquired_object \<times> acquired_object \<times> 'a pools" where
  "assign_move this other pools =
     (case release this pools of
        Inl e \<Rightarrow> Inl e
      | Inr pools' \<Rightarrow>
          Inr (taken_from other, cleared, pools'))"

text \<open>\<open>operator=(none_t)\<close>.\<close>

definition assign_none :: "acquired_object \<Rightarrow> 'a pools \<Rightarrow> error + acquired_object \<times> 'a pools" where
  "assign_none this pools =
     (case release this pools of
        Inl e \<Rightarrow> Inl e
      | Inr pools' \<Rightarrow> Inr (cleared, pools'))"

subsection \<open>\<open>impl\<close>: \<open>acquire_wait\<close>\<close>

text \<open>
  \<open>acquire_wait\<close> is the one member that releases the mutex in the middle: while it
  waits on \<open>m_objects_availabe\<close>, other threads change the pool. What the waiting thread
  sees is the pool at each wake-up, so the environment is given as the list of those
  states (\<open>wakeups\<close>) and, for the timed wait, the state found when the time is up
  (\<open>at_timeout\<close>).

  \<open>wait(lock, pred)\<close> is \<open>while (!pred()) wait(lock);\<close>. With finitely many wake-ups the
  thread that still finds \<open>pred\<close> false stays blocked: the value \<open>None\<close>.

  \<open>wait_for(lock, rel_time, pred)\<close> is
  \<open>while (!pred()) if (wait_until(lock, t) == cv_status::timeout) return pred(); return true;\<close>
\<close>

fun cv_wait :: "('a impl \<Rightarrow> bool) \<Rightarrow> 'a impl list \<Rightarrow> 'a impl \<Rightarrow> 'a impl option" where
  "cv_wait pred [] p = (if pred p then Some p else None)"
| "cv_wait pred (w # wakeups) p = (if pred p then Some p else cv_wait pred wakeups w)"

fun cv_wait_for ::
  "('a impl \<Rightarrow> bool) \<Rightarrow> 'a impl list \<Rightarrow> 'a impl \<Rightarrow> 'a impl \<Rightarrow> bool \<times> 'a impl" where
  "cv_wait_for pred [] at_timeout p = (if pred p then (True, p) else (pred at_timeout, at_timeout))"
| "cv_wait_for pred (w # wakeups) at_timeout p =
     (if pred p then (True, p) else cv_wait_for pred wakeups at_timeout w)"

text \<open>
  The local \<open>obj\<close> is default-constructed, so the two assignments to it release nothing
  and only set its members; it leaves through the move constructor. \<open>time_limit\<close> is the
  count of milliseconds.
\<close>

definition pop_into ::
  "pool_ref \<Rightarrow> 'a impl \<Rightarrow> error + acquired_object \<times> 'a impl" where
  "pop_into this p =
     (case m_free_objects p of
        [] \<Rightarrow> Inl EmptyStackAccess
      | obj # rest \<Rightarrow>
          Inr (fst (acquired_object_move (taken_from (acquired_object_lend obj this))),
               p\<lparr>m_free_objects := rest\<rparr>))"

definition acquire_wait ::
  "pool_ref \<Rightarrow> int \<Rightarrow> 'a impl list \<Rightarrow> 'a impl \<Rightarrow> 'a impl \<Rightarrow>
   (error + acquired_object \<times> 'a impl) option" where
  "acquire_wait this time_limit wakeups at_timeout p =
     (if time_limit = 0 then
        (case cv_wait (\<lambda>s. m_free_objects s \<noteq> []) wakeups p of
           None \<Rightarrow> None
         | Some s \<Rightarrow> Some (pop_into this s))
      else
        (case cv_wait_for (\<lambda>s. m_free_objects s = []) wakeups at_timeout p of
           (True, s) \<Rightarrow> Some (Inr (fst (acquired_object_move cleared), s))
         | (False, s) \<Rightarrow> Some (pop_into this s)))"

subsection \<open>The invariant of the specification\<close>

text \<open>
  The data model of the specification states
  \<open>0 \<le> free_objects.size() \<le> managed_count \<le> capacity\<close>. This predicate is that
  sentence; it is not part of the source.
\<close>

definition pool_invariant :: "'a impl \<Rightarrow> bool" where
  "pool_invariant p =
     (length (m_free_objects p) \<le> m_managed_count p \<and> m_managed_count p \<le> m_capacity p)"

section \<open>What the loops compute\<close>

lemma push_fresh_slots_eq:
  "push_fresh_slots n space mem =
     (rev [next_free mem ..< next_free mem + n] @ space,
      mem\<lparr>next_free := next_free mem + n\<rparr>)"
proof (induction n arbitrary: space mem)
  case 0
  show ?case by simp
next
  case (Suc n)
  have "[next_free mem ..< next_free mem + Suc n] =
        next_free mem # [Suc (next_free mem) ..< Suc (next_free mem) + n]"
    by (simp add: upt_conv_Cons)
  then show ?case
    by (simp add: allocate1_def Suc.IH)
qed

lemma push_fresh_objects_eq:
  "push_fresh_objects n v free mem =
     (rev [next_free mem ..< next_free mem + n] @ free,
      mem\<lparr>next_free := next_free mem + n,
          objects := (\<lambda>a. if a \<in> {next_free mem ..< next_free mem + n} then Some v
                          else objects mem a)\<rparr>)"
proof (induction n arbitrary: free mem)
  case 0
  show ?case by simp
next
  case (Suc n)
  define mem1 where "mem1 = construct (next_free mem) v (mem\<lparr>next_free := Suc (next_free mem)\<rparr>)"
  have step: "push_fresh_objects (Suc n) v free mem =
              push_fresh_objects n v (next_free mem # free) mem1"
    by (simp add: allocate1_def mem1_def)
  have nf: "next_free mem1 = Suc (next_free mem)"
    by (simp add: mem1_def construct_def)
  have l: "rev [next_free mem1 ..< next_free mem1 + n] @ next_free mem # free =
           rev [next_free mem ..< next_free mem + Suc n] @ free"
    by (simp add: nf upt_conv_Cons)
  have f: "(\<lambda>a. if a \<in> {next_free mem1 ..< next_free mem1 + n} then Some v else objects mem1 a) =
           (\<lambda>a. if a \<in> {next_free mem ..< next_free mem + Suc n} then Some v
                else objects mem a)"
    by (rule ext) (auto simp: nf mem1_def construct_def)
  have me: "mem1\<lparr>next_free := next_free mem1 + n,
               objects := (\<lambda>a. if a \<in> {next_free mem1 ..< next_free mem1 + n} then Some v
                               else objects mem1 a)\<rparr> =
            mem\<lparr>next_free := next_free mem + Suc n,
               objects := (\<lambda>a. if a \<in> {next_free mem ..< next_free mem + Suc n} then Some v
                               else objects mem a)\<rparr>"
    unfolding f by (simp add: mem1_def construct_def)
  show ?case
    by (simp only: step Suc.IH l me)
qed

lemma upt_4: "[n ..< n + 4] = [n, n + 1, n + 2, n + 3]"
  by (simp add: upt_conv_Cons numeral_eq_Suc)

lemma upt_0_3: "[0 ..< 3] = [0, 1, 2]"
  by (simp add: upt_conv_Cons numeral_eq_Suc)

lemma upt_0_5: "[0 ..< 5] = [0, 1, 2, 3, 4]"
  by (simp add: upt_conv_Cons numeral_eq_Suc)

lemma impl_alloc_eq:
  "impl_alloc alloc mem =
     (\<lparr>m_managed_count = 0, m_capacity = 4, m_allocator = alloc,
       m_allocated_space = [next_free mem + 3, next_free mem + 2, next_free mem + 1, next_free mem],
       m_free_objects = []\<rparr>,
      mem\<lparr>next_free := next_free mem + 4\<rparr>)"
  by (simp add: impl_alloc_def push_fresh_slots_eq upt_4)

lemma impl_count_value_eq:
  "impl_count_value count v alloc mem =
     (\<lparr>m_managed_count = count, m_capacity = count, m_allocator = alloc,
       m_allocated_space = [], m_free_objects = rev [next_free mem ..< next_free mem + count]\<rparr>,
      mem\<lparr>next_free := next_free mem + count,
          objects := (\<lambda>a. if a \<in> {next_free mem ..< next_free mem + count} then Some v
                          else objects mem a)\<rparr>)"
  by (simp add: impl_count_value_def push_fresh_objects_eq)

text \<open>
  The shrinking loop succeeds when it runs at most as often as there are free objects:
  it moves the top \<open>n\<close> of them, one by one, onto the slot stack and ends their lifetime.
\<close>

lemma resize_shrink_eq:
  "n \<le> length (m_free_objects p) \<Longrightarrow>
   resize_shrink n p mem =
     Inr (p\<lparr>m_allocated_space := rev (take n (m_free_objects p)) @ m_allocated_space p,
            m_free_objects := drop n (m_free_objects p)\<rparr>,
          mem\<lparr>objects := (\<lambda>a. if a \<in> set (take n (m_free_objects p)) then None
                               else objects mem a)\<rparr>)"
proof (induction n arbitrary: p mem)
  case 0
  show ?case by simp
next
  case (Suc n)
  then obtain obj rest where fr: "m_free_objects p = obj # rest"
    by (cases "m_free_objects p") auto
  with Suc.prems have len: "n \<le> length rest" by simp
  define p1 where "p1 = p\<lparr>m_allocated_space := obj # m_allocated_space p, m_free_objects := rest\<rparr>"
  define mem1 where "mem1 = destruct obj mem"
  have step: "resize_shrink (Suc n) p mem = resize_shrink n p1 mem1"
    by (simp add: fr p1_def mem1_def)
  have "n \<le> length (m_free_objects p1)"
    using len by (simp add: p1_def)
  then have ih: "resize_shrink n p1 mem1 =
     Inr (p1\<lparr>m_allocated_space := rev (take n (m_free_objects p1)) @ m_allocated_space p1,
             m_free_objects := drop n (m_free_objects p1)\<rparr>,
          mem1\<lparr>objects := (\<lambda>a. if a \<in> set (take n (m_free_objects p1)) then None
                                else objects mem1 a)\<rparr>)"
    by (rule Suc.IH)
  have f: "(\<lambda>a. if a \<in> set (take n rest) then None else ((objects mem)(obj := None)) a) =
           (\<lambda>a. if a = obj \<or> a \<in> set (take n rest) then None else objects mem a)"
    by (rule ext) auto
  have pe: "p1\<lparr>m_allocated_space := rev (take n (m_free_objects p1)) @ m_allocated_space p1,
             m_free_objects := drop n (m_free_objects p1)\<rparr> =
        p\<lparr>m_allocated_space := rev (take (Suc n) (m_free_objects p)) @ m_allocated_space p,
            m_free_objects := drop (Suc n) (m_free_objects p)\<rparr>"
    by (simp add: p1_def fr)
  have me: "mem1\<lparr>objects := (\<lambda>a. if a \<in> set (take n (m_free_objects p1)) then None
                                else objects mem1 a)\<rparr> =
        mem\<lparr>objects := (\<lambda>a. if a \<in> set (take (Suc n) (m_free_objects p)) then None
                               else objects mem a)\<rparr>"
    using f by (simp add: p1_def mem1_def fr destruct_def cong: if_cong)
  show ?case
    by (simp only: step ih pe me)
qed

lemma resize_shrink_counts:
  "resize_shrink n p mem = Inr (p', mem') \<Longrightarrow>
   length (m_free_objects p') + n = length (m_free_objects p)
   \<and> m_capacity p' = m_capacity p"
proof (induction n arbitrary: p mem)
  case 0
  then show ?case by auto
next
  case (Suc n)
  then show ?case
    by (cases "m_free_objects p") fastforce+
qed

lemma resize_grow_counts:
  "resize_grow n v p mem = Inr (p', mem') \<Longrightarrow>
   length (m_free_objects p') = length (m_free_objects p) + n
   \<and> m_capacity p' = m_capacity p"
proof (induction n arbitrary: p mem)
  case 0
  then show ?case by auto
next
  case (Suc n)
  then show ?case
    by (cases "m_allocated_space p") fastforce+
qed

text \<open>A wait hands back one of the states it was shown, and says what \<open>pred\<close> is there.\<close>

lemma cv_wait_result:
  "cv_wait pred wakeups p = Some s \<Longrightarrow> s \<in> set (p # wakeups) \<and> pred s"
  by (induction wakeups arbitrary: p) (auto split: if_splits)

lemma cv_wait_for_result:
  "cv_wait_for pred wakeups at_timeout p = (b, s) \<Longrightarrow>
   s \<in> set (p # at_timeout # wakeups) \<and> b = pred s"
  by (induction wakeups arbitrary: p) (auto split: if_splits)

section \<open>Construction\<close>

text \<open>
  Claim C10. A default-constructed pool, with the default allocator or with one that is
  passed in, has no free object (\<open>size() = 0\<close>, \<open>empty()\<close>), manages none
  (\<open>managed_count() = 0\<close>) and reports \<open>capacity() = 4\<close>. It is not without storage: the
  constructor has taken four slots from the allocator, which has handed out its next four
  addresses and now stands four further; the slot stack holds exactly these four distinct
  addresses, and no object has been constructed in them or anywhere else.
\<close>

theorem default_pool_state:
  "size_impl (fst (object_pool_default mem)) = 0
   \<and> managed_count (fst (object_pool_default mem)) = 0
   \<and> empty_impl (fst (object_pool_default mem))
   \<and> capacity (fst (object_pool_default mem)) = 4
   \<and> m_allocated_space (fst (object_pool_default mem)) =
       [next_free mem + 3, next_free mem + 2, next_free mem + 1, next_free mem]
   \<and> objects (snd (object_pool_default mem)) = objects mem
   \<and> size_impl (fst (object_pool_alloc alloc mem)) = 0
   \<and> managed_count (fst (object_pool_alloc alloc mem)) = 0
   \<and> empty_impl (fst (object_pool_alloc alloc mem))
   \<and> capacity (fst (object_pool_alloc alloc mem)) = 4
   \<and> m_allocated_space (fst (object_pool_alloc alloc mem)) =
       [next_free mem + 3, next_free mem + 2, next_free mem + 1, next_free mem]
   \<and> objects (snd (object_pool_alloc alloc mem)) = objects mem
   \<and> next_free (snd (object_pool_default mem)) = next_free mem + 4
   \<and> next_free (snd (object_pool_alloc alloc mem)) = next_free mem + 4
   \<and> snd (object_pool_default mem) = mem\<lparr>next_free := next_free mem + 4\<rparr>
   \<and> snd (object_pool_alloc alloc mem) = mem\<lparr>next_free := next_free mem + 4\<rparr>
   \<and> length (m_allocated_space (fst (object_pool_default mem))) = 4
   \<and> distinct (m_allocated_space (fst (object_pool_default mem)))
   \<and> length (m_allocated_space (fst (object_pool_alloc alloc mem))) = 4
   \<and> distinct (m_allocated_space (fst (object_pool_alloc alloc mem)))
   \<and> set (m_allocated_space (fst (object_pool_alloc alloc mem)))
       = {next_free mem ..< next_free (snd (object_pool_alloc alloc mem))}
   \<and> set (m_allocated_space (fst (object_pool_default mem)))
       = {next_free mem ..< next_free (snd (object_pool_default mem))}
   \<and> m_allocator (fst (object_pool_alloc alloc mem)) = alloc
   \<and> m_allocator (fst (object_pool_default mem)) = default_allocator"
  by (auto simp add: object_pool_default_def object_pool_alloc_def impl_alloc_eq
      size_impl_def managed_count_def empty_impl_def capacity_def)

section \<open>Acquisition\<close>

text \<open>
  Claim C3. \<open>acquire\<close> returns for every pool, without waiting. On an empty free list
  the handle equals \<open>none\<close> and the pool is as it was. Otherwise the handle owns the top
  free object, is bound to this pool, differs from \<open>none\<close>, and the pool has lost exactly
  that top entry of the free list.
\<close>

theorem acquire_total:
  "(m_free_objects p = [] \<longrightarrow>
      op_eq_none (fst (acquire this p)) \<and> snd (acquire this p) = p)
   \<and> (\<forall>obj rest. m_free_objects p = obj # rest \<longrightarrow>
        fst (acquire this p) = \<lparr>m_obj = Ptr obj, m_pool = Some this, m_is_initialized = True\<rparr>
        \<and> op_ne_none (fst (acquire this p))
        \<and> snd (acquire this p) = p\<lparr>m_free_objects := rest\<rparr>)"
  by (simp add: acquire_def acquired_object_none_def acquired_object_move_def taken_from_def
      acquired_object_lend_def op_eq_none_def op_ne_none_def)

text \<open>A pool whose two objects are both lent out, and one with both of them free.\<close>

theorem acquire_total_witness:
  "op_eq_none (fst (acquire 7 (\<lparr>m_managed_count = 1, m_capacity = 1, m_allocator = default_allocator,
        m_allocated_space = [], m_free_objects = []\<rparr> :: unit impl)))
   \<and> fst (acquire 7 (\<lparr>m_managed_count = 2, m_capacity = 2, m_allocator = default_allocator,
        m_allocated_space = [], m_free_objects = [1, 0]\<rparr> :: unit impl)) =
       \<lparr>m_obj = Ptr 1, m_pool = Some 7, m_is_initialized = True\<rparr>
   \<and> snd (acquire 7 (\<lparr>m_managed_count = 2, m_capacity = 2, m_allocator = default_allocator,
        m_allocated_space = [], m_free_objects = [1, 0]\<rparr> :: unit impl)) =
       \<lparr>m_managed_count = 2, m_capacity = 2, m_allocator = default_allocator,
        m_allocated_space = [], m_free_objects = [0]\<rparr>"
  using acquire_total [of "\<lparr>m_managed_count = 1, m_capacity = 1, m_allocator = default_allocator,
        m_allocated_space = [], m_free_objects = []\<rparr> :: unit impl" 7]
    acquire_total [of "\<lparr>m_managed_count = 2, m_capacity = 2, m_allocator = default_allocator,
        m_allocated_space = [], m_free_objects = [1, 0]\<rparr> :: unit impl" 7]
  by simp

text \<open>
  Claim C4. \<open>allocate\<close> never returns \<open>none\<close> and never changes \<open>capacity\<close>. With a free
  object it is \<open>acquire\<close>: same handle, same pool, memory untouched, one free object less
  and \<open>managed_count\<close> unchanged. With none it takes a new address from the allocator,
  constructs the object there, hands it out bound to this pool, and adds one to
  \<open>managed_count\<close>; the free list stays empty and the slot stack is not used.
\<close>

theorem allocate_never_none:
  "op_ne_none (fst (allocate this v p mem))
   \<and> capacity (fst (snd (allocate this v p mem))) = capacity p
   \<and> (m_free_objects p \<noteq> [] \<longrightarrow>
        allocate this v p mem = (fst (acquire this p), snd (acquire this p), mem)
        \<and> size_impl (fst (snd (allocate this v p mem))) + 1 = size_impl p
        \<and> managed_count (fst (snd (allocate this v p mem))) = managed_count p)
   \<and> (m_free_objects p = [] \<longrightarrow>
        allocate this v p mem =
          (\<lparr>m_obj = Ptr (next_free mem), m_pool = Some this, m_is_initialized = True\<rparr>,
           p\<lparr>m_managed_count := m_managed_count p + 1\<rparr>,
           mem\<lparr>next_free := next_free mem + 1,
               objects := (objects mem)(next_free mem \<mapsto> v)\<rparr>)
        \<and> managed_count (fst (snd (allocate this v p mem))) = managed_count p + 1
        \<and> m_free_objects (fst (snd (allocate this v p mem))) = m_free_objects p)"
  by (cases "m_free_objects p")
     (simp_all add: allocate_def acquire_def allocate1_def construct_def acquired_object_move_def
      taken_from_def acquired_object_lend_def op_eq_none_def op_ne_none_def capacity_def
      size_impl_def managed_count_def)

text \<open>A pool with two free objects, and the same pool with both lent out.\<close>

theorem allocate_never_none_witness:
  "allocate 0 () (\<lparr>m_managed_count = 2, m_capacity = 4, m_allocator = default_allocator,
        m_allocated_space = [3, 2], m_free_objects = [1, 0]\<rparr> :: unit impl)
        \<lparr>next_free = 4, objects = [0 \<mapsto> (), 1 \<mapsto> ()]\<rparr> =
     (\<lparr>m_obj = Ptr 1, m_pool = Some 0, m_is_initialized = True\<rparr>,
      \<lparr>m_managed_count = 2, m_capacity = 4, m_allocator = default_allocator,
        m_allocated_space = [3, 2], m_free_objects = [0]\<rparr>,
      \<lparr>next_free = 4, objects = [0 \<mapsto> (), 1 \<mapsto> ()]\<rparr>)
   \<and> allocate 0 () (\<lparr>m_managed_count = 2, m_capacity = 4, m_allocator = default_allocator,
        m_allocated_space = [3, 2], m_free_objects = []\<rparr> :: unit impl)
        \<lparr>next_free = 4, objects = [0 \<mapsto> (), 1 \<mapsto> ()]\<rparr> =
     (\<lparr>m_obj = Ptr 4, m_pool = Some 0, m_is_initialized = True\<rparr>,
      \<lparr>m_managed_count = 3, m_capacity = 4, m_allocator = default_allocator,
        m_allocated_space = [3, 2], m_free_objects = []\<rparr>,
      \<lparr>next_free = 5, objects = [0 \<mapsto> (), 1 \<mapsto> (), 4 \<mapsto> ()]\<rparr>)"
proof -
  define p :: "unit impl" where "p = \<lparr>m_managed_count = 2, m_capacity = 4,
     m_allocator = default_allocator, m_allocated_space = [3, 2], m_free_objects = [1, 0]\<rparr>"
  define q :: "unit impl" where "q = \<lparr>m_managed_count = 2, m_capacity = 4,
     m_allocator = default_allocator, m_allocated_space = [3, 2], m_free_objects = []\<rparr>"
  define mem :: "unit memory" where "mem = \<lparr>next_free = 4, objects = [0 \<mapsto> (), 1 \<mapsto> ()]\<rparr>"
  have ne: "m_free_objects p \<noteq> []" and e: "m_free_objects q = []"
    by (simp_all add: p_def q_def)
  from allocate_never_none [of 0 "()" p mem] ne
  have a: "allocate 0 () p mem = (fst (acquire 0 p), snd (acquire 0 p), mem)" by blast
  have acq: "acquire 0 p = (\<lparr>m_obj = Ptr 1, m_pool = Some 0, m_is_initialized = True\<rparr>,
      \<lparr>m_managed_count = 2, m_capacity = 4, m_allocator = default_allocator,
        m_allocated_space = [3, 2], m_free_objects = [0]\<rparr>)"
    by (simp add: acquire_def p_def acquired_object_move_def taken_from_def acquired_object_lend_def)
  from allocate_never_none [of 0 "()" q mem] e
  have b: "allocate 0 () q mem =
          (\<lparr>m_obj = Ptr (next_free mem), m_pool = Some 0, m_is_initialized = True\<rparr>,
           q\<lparr>m_managed_count := m_managed_count q + 1\<rparr>,
           mem\<lparr>next_free := next_free mem + 1,
               objects := (objects mem)(next_free mem \<mapsto> ())\<rparr>)" by blast
  show ?thesis
    using a b unfolding acq by (simp add: p_def q_def mem_def)
qed

section \<open>The handle\<close>

text \<open>
  Claim C8. Dereferencing an empty handle throws \<open>std::logic_error\<close>, for both
  \<open>operator*\<close> and \<open>operator->\<close>: whenever the flag \<open>m_is_initialized\<close> is down, and so
  for a default-constructed handle, one built from \<open>none\<close>, the source of a move
  construction or of a move assignment, a handle that was assigned \<open>none\<close>, and the
  handle \<open>acquire\<close> returns on an empty free list. No value is returned in these cases.
  A handle built for an object, by hand or by \<open>acquire\<close>, dereferences to that object.
\<close>

theorem dereference_checked:
  "(\<not> m_is_initialized h \<longrightarrow> op_star h = Inl LogicError \<and> op_arrow h = Inl LogicError)
   \<and> op_star acquired_object_default = Inl LogicError
   \<and> op_arrow acquired_object_default = Inl LogicError
   \<and> op_star acquired_object_none = Inl LogicError
   \<and> op_arrow acquired_object_none = Inl LogicError
   \<and> op_star (snd (acquired_object_move h)) = Inl LogicError
   \<and> op_arrow (snd (acquired_object_move h)) = Inl LogicError
   \<and> (\<forall>this' other' pools'. assign_move h other pools = Inr (this', other', pools') \<longrightarrow>
        op_star other' = Inl LogicError \<and> op_arrow other' = Inl LogicError)
   \<and> (\<forall>this' pools'. assign_none h pools = Inr (this', pools') \<longrightarrow>
        op_star this' = Inl LogicError \<and> op_arrow this' = Inl LogicError)
   \<and> (m_free_objects p = [] \<longrightarrow>
        op_star (fst (acquire this p)) = Inl LogicError
        \<and> op_arrow (fst (acquire this p)) = Inl LogicError)
   \<and> op_star (acquired_object_lend obj this) = Inr obj
   \<and> op_arrow (acquired_object_lend obj this) = Inr (Ptr obj)
   \<and> (\<forall>rest. m_free_objects p = obj # rest \<longrightarrow>
        op_star (fst (acquire this p)) = Inr obj
        \<and> op_arrow (fst (acquire this p)) = Inr (Ptr obj))"
  by (auto simp: op_star_def op_arrow_def acquired_object_default_def acquired_object_none_def
      acquired_object_move_def cleared_def taken_from_def assign_move_def assign_none_def
      acquire_def acquired_object_lend_def split: sum.splits)

text \<open>
  An owning handle takes over another one's object, and an owning handle is assigned
  \<open>none\<close>: both give their object back to pool \<open>0\<close> first.
\<close>

theorem dereference_checked_witness:
  "op_star acquired_object_default = Inl LogicError
   \<and> (\<exists>this' other' pools'.
        assign_move (acquired_object_lend 1 0) (acquired_object_lend 0 0)
          [0 \<mapsto> (\<lparr>m_managed_count = 2, m_capacity = 2, m_allocator = default_allocator,
                  m_allocated_space = [], m_free_objects = []\<rparr> :: unit impl)]
          = Inr (this', other', pools')
        \<and> op_star this' = Inr 0
        \<and> op_star other' = Inl LogicError \<and> op_arrow other' = Inl LogicError)
   \<and> (\<exists>this' pools'.
        assign_none (acquired_object_lend 1 0)
          [0 \<mapsto> (\<lparr>m_managed_count = 2, m_capacity = 2, m_allocator = default_allocator,
                  m_allocated_space = [], m_free_objects = []\<rparr> :: unit impl)]
          = Inr (this', pools')
        \<and> op_star this' = Inl LogicError \<and> op_arrow this' = Inl LogicError)
   \<and> op_star (fst (acquire 0 (\<lparr>m_managed_count = 2, m_capacity = 2,
          m_allocator = default_allocator, m_allocated_space = [], m_free_objects = []\<rparr> :: unit impl)))
       = Inl LogicError
   \<and> op_star (fst (acquire 0 (\<lparr>m_managed_count = 2, m_capacity = 2,
          m_allocator = default_allocator, m_allocated_space = [], m_free_objects = [1, 0]\<rparr> :: unit impl)))
       = Inr 1"
proof -
  define e :: "unit impl" where "e = \<lparr>m_managed_count = 2, m_capacity = 2,
     m_allocator = default_allocator, m_allocated_space = [], m_free_objects = []\<rparr>"
  define f :: "unit impl" where "f = \<lparr>m_managed_count = 2, m_capacity = 2,
     m_allocator = default_allocator, m_allocated_space = [], m_free_objects = [1, 0]\<rparr>"
  have ni: "\<not> m_is_initialized acquired_object_default"
    by (simp add: acquired_object_default_def)
  have fe: "m_free_objects e = []" and ff: "m_free_objects f = 1 # [0]"
    by (simp_all add: e_def f_def)
  obtain t o' ps where am: "assign_move (acquired_object_lend 1 0) (acquired_object_lend 0 0)
      [0 \<mapsto> e] = Inr (t, o', ps)" and t: "op_star t = Inr 0"
    by (simp add: assign_move_def release_def deleter_def acquired_object_lend_def
        taken_from_def op_star_def)
  obtain t2 ps2 where an: "assign_none (acquired_object_lend 1 0) [0 \<mapsto> e] = Inr (t2, ps2)"
    by (simp add: assign_none_def release_def deleter_def acquired_object_lend_def)
  note T1 = dereference_checked [where h = acquired_object_default and p = e and this = 0]
  note T2 = dereference_checked [where h = "acquired_object_lend 1 0"
      and other = "acquired_object_lend 0 0" and pools = "[0 \<mapsto> e]" and p = f and this = 0
      and obj = 1]
  from T1 ni have a: "op_star acquired_object_default = Inl LogicError" by blast
  from T2 am have b: "op_star o' = Inl LogicError \<and> op_arrow o' = Inl LogicError" by blast
  from T2 an have c: "op_star t2 = Inl LogicError \<and> op_arrow t2 = Inl LogicError" by blast
  from T1 fe have d: "op_star (fst (acquire 0 e)) = Inl LogicError" by blast
  from T2 ff have g: "op_star (fst (acquire 0 f)) = Inr 1" by blast
  from a b c d g am an t show ?thesis
    unfolding e_def f_def by blast
qed

section \<open>Swap\<close>

text \<open>
  Claim C9. \<open>swap\<close> exchanges \<open>m_managed_count\<close>, \<open>m_capacity\<close>, \<open>m_free_objects\<close> and
  \<open>m_allocator\<close> of the two pools and leaves each pool its own \<open>m_allocated_space\<close>. The
  capacity a pool reports afterwards is therefore the other pool's: a default pool
  (capacity 4, four raw slots) swapped with a pool of two objects (capacity 2, no raw
  slot) ends with capacity 2 and four raw slots, while the other reports capacity 4,
  manages nothing and holds no slot, so that a \<open>push\<close> on it reads an empty stack.
\<close>

theorem swap_keeps_allocated_space:
  "m_managed_count (fst (swap_impl a b)) = m_managed_count b
   \<and> m_capacity (fst (swap_impl a b)) = m_capacity b
   \<and> m_free_objects (fst (swap_impl a b)) = m_free_objects b
   \<and> m_allocator (fst (swap_impl a b)) = m_allocator b
   \<and> m_allocated_space (fst (swap_impl a b)) = m_allocated_space a
   \<and> m_managed_count (snd (swap_impl a b)) = m_managed_count a
   \<and> m_capacity (snd (swap_impl a b)) = m_capacity a
   \<and> m_free_objects (snd (swap_impl a b)) = m_free_objects a
   \<and> m_allocator (snd (swap_impl a b)) = m_allocator a
   \<and> m_allocated_space (snd (swap_impl a b)) = m_allocated_space b
   \<and> (let sa = impl_alloc default_allocator \<lparr>next_free = 0, objects = Map.empty\<rparr>;
           sb = impl_count_value 2 () default_allocator (snd sa);
           sw = swap_impl (fst sa) (fst sb)
       in capacity (fst sa) = 4 \<and> length (m_allocated_space (fst sa)) = 4
          \<and> capacity (fst sb) = 2 \<and> m_allocated_space (fst sb) = []
          \<and> capacity (fst sw) = 2 \<and> length (m_allocated_space (fst sw)) = 4
          \<and> capacity (snd sw) = 4 \<and> managed_count (snd sw) = 0
          \<and> m_allocated_space (snd sw) = []
          \<and> push () (snd sw) (snd sb) = Inl EmptyStackAccess)"
  by (simp add: swap_impl_def Let_def impl_alloc_eq impl_count_value_eq capacity_def
      managed_count_def push_def)

section \<open>Borrowing and giving back\<close>

text \<open>
  The subtraction in \<open>in_use\<close> is unsigned: a pool that was not in use is in use once one
  of its free objects has been popped.
\<close>

lemma in_use_after_acquire:
  assumes "\<not> in_use p" and "m_free_objects p = obj # rest"
  shows "in_use (p\<lparr>m_free_objects := rest\<rparr>)"
proof -
  let ?d = "int (m_managed_count p) - int (length (m_free_objects p))"
  from assms(1) have "?d mod 2 ^ 64 \<le> 0" by (simp add: in_use_def)
  moreover have "0 \<le> ?d mod 2 ^ 64" by simp
  ultimately have z: "?d mod 2 ^ 64 = 0" by linarith
  have "(?d + 1) mod 2 ^ 64 = (?d mod 2 ^ 64 + 1) mod 2 ^ 64"
    by (simp add: mod_add_left_eq)
  with z have "(?d + 1) mod 2 ^ 64 = 1" by simp
  moreover have "int (m_managed_count p) - int (length rest) = ?d + 1"
    using assms(2) by simp
  ultimately have "(int (m_managed_count p) - int (length rest)) mod 2 ^ 64 = 1"
    by (simp only:)
  then show ?thesis by (simp add: in_use_def)
qed

text \<open>
  On a pool with a free object, \<open>acquire\<close> takes one object out (\<open>size()\<close> drops by one),
  and destroying the handle it returned puts the pool back: the destructor finds the pool
  through the handle, pushes the object onto the free list, and the pool is then exactly
  the pool before the \<open>acquire\<close>. So \<open>size()\<close> is restored, and \<open>in_use()\<close> has the value
  it had before.
\<close>

lemma acquire_release_round_trip:
  assumes "pools this = Some p" and "m_free_objects p \<noteq> []"
  shows "size_impl (snd (acquire this p)) + 1 = size_impl p
    \<and> (\<not> in_use p \<longrightarrow> in_use (snd (acquire this p)))
    \<and> (\<exists>p'. acquired_object_destroy (fst (acquire this p)) (pools(this \<mapsto> snd (acquire this p)))
               = Inr (pools(this \<mapsto> p'))
          \<and> size_impl p' = size_impl p
          \<and> (\<not> in_use p \<longrightarrow> \<not> in_use p')
          \<and> p' = p)"
proof -
  from assms(2) obtain obj rest where fr: "m_free_objects p = obj # rest"
    by (cases "m_free_objects p") auto
  have a: "acquire this p = (acquired_object_lend obj this, p\<lparr>m_free_objects := rest\<rparr>)"
    by (simp add: acquire_def fr acquired_object_move_def taken_from_def acquired_object_lend_def)
  have ret: "return_object obj (p\<lparr>m_free_objects := rest\<rparr>) = p"
    using fr by (simp add: return_object_def)
  have d: "acquired_object_destroy (acquired_object_lend obj this)
             (pools(this \<mapsto> p\<lparr>m_free_objects := rest\<rparr>)) = Inr (pools(this \<mapsto> p))"
    by (simp add: acquired_object_destroy_def release_def deleter_def acquired_object_lend_def ret)
  show ?thesis
    using d in_use_after_acquire [OF _ fr] by (auto simp: a size_impl_def fr)
qed


text \<open>The scenario of the specification: a pool of three copies, one borrowed and dropped.\<close>

lemma acquire_release_round_trip_example:
  "size_impl (fst (impl_count_value 3 () default_allocator \<lparr>next_free = 0, objects = Map.empty\<rparr>)) = 3
   \<and> \<not> in_use (fst (impl_count_value 3 () default_allocator \<lparr>next_free = 0, objects = Map.empty\<rparr>))
   \<and> size_impl (snd (acquire 0
         (fst (impl_count_value 3 () default_allocator \<lparr>next_free = 0, objects = Map.empty\<rparr>)))) = 2
   \<and> in_use (snd (acquire 0
         (fst (impl_count_value 3 () default_allocator \<lparr>next_free = 0, objects = Map.empty\<rparr>))))
   \<and> acquired_object_destroy
        (fst (acquire 0
           (fst (impl_count_value 3 () default_allocator \<lparr>next_free = 0, objects = Map.empty\<rparr>))))
        [0 \<mapsto> snd (acquire 0
           (fst (impl_count_value 3 () default_allocator \<lparr>next_free = 0, objects = Map.empty\<rparr>)))]
      = Inr [0 \<mapsto> fst (impl_count_value 3 () default_allocator \<lparr>next_free = 0, objects = Map.empty\<rparr>)]"
proof -
  let ?p = "fst (impl_count_value 3 () default_allocator \<lparr>next_free = 0, objects = Map.empty\<rparr>)"
  have fr: "m_free_objects ?p = [2, 1, 0]" and mc: "m_managed_count ?p = 3"
    by (simp_all add: impl_count_value_eq upt_0_3)
  have ne: "m_free_objects ?p \<noteq> []" by (simp add: fr)
  have nu: "\<not> in_use ?p" by (simp add: in_use_def fr mc)
  have sz: "size_impl ?p = 3" by (simp add: size_impl_def fr)
  have look: "[0 \<mapsto> ?p] 0 = Some ?p" by simp
  from acquire_release_round_trip [of "[0 \<mapsto> ?p]" 0 ?p, OF look ne] nu sz show ?thesis
    by auto
qed

text \<open>
  Claim C7 says more of \<open>in_use()\<close>: after the round trip it is false when no other
  object is lent. A pool of three objects has one borrowed (the handle holds object 2),
  is resized to two, which finds two free objects and only overwrites \<open>m_managed_count\<close>
  with 2, and gets the borrowed object back: three objects are free and none is lent,
  with \<open>m_managed_count = 2\<close>. The round trip of the claim starts from this pool:
  \<open>acquire\<close> lends object 2 again, and dropping that handle restores the three free
  objects. Nothing is lent then, and \<open>in_use()\<close> is true, because the unsigned
  difference \<open>2 - 3\<close> is not 0; it was false while the object was lent.
\<close>

theorem round_trip_after_resize_in_use:
  "acquire 0 (fst (impl_count_value 3 () default_allocator \<lparr>next_free = 0, objects = Map.empty\<rparr>))
     = (\<lparr>m_obj = Ptr 2, m_pool = Some 0, m_is_initialized = True\<rparr>,
        \<lparr>m_managed_count = 3, m_capacity = 3, m_allocator = default_allocator,
          m_allocated_space = [], m_free_objects = [1, 0]\<rparr>)
   \<and> resize () 2 (\<lparr>m_managed_count = 3, m_capacity = 3, m_allocator = default_allocator,
          m_allocated_space = [], m_free_objects = [1, 0]\<rparr> :: unit impl) mem
     = Inr (\<lparr>m_managed_count = 2, m_capacity = 3, m_allocator = default_allocator,
          m_allocated_space = [], m_free_objects = [1, 0]\<rparr>, mem)
   \<and> acquired_object_destroy \<lparr>m_obj = Ptr 2, m_pool = Some 0, m_is_initialized = True\<rparr>
      [0 \<mapsto> (\<lparr>m_managed_count = 2, m_capacity = 3, m_allocator = default_allocator,
          m_allocated_space = [], m_free_objects = [1, 0]\<rparr> :: unit impl)]
     = Inr [0 \<mapsto> \<lparr>m_managed_count = 2, m_capacity = 3, m_allocator = default_allocator,
          m_allocated_space = [], m_free_objects = [2, 1, 0]\<rparr>]
   \<and> size_impl (\<lparr>m_managed_count = 2, m_capacity = 3, m_allocator = default_allocator,
          m_allocated_space = [], m_free_objects = [2, 1, 0]\<rparr> :: unit impl) = 3
   \<and> acquire 0 (\<lparr>m_managed_count = 2, m_capacity = 3, m_allocator = default_allocator,
          m_allocated_space = [], m_free_objects = [2, 1, 0]\<rparr> :: unit impl)
     = (\<lparr>m_obj = Ptr 2, m_pool = Some 0, m_is_initialized = True\<rparr>,
        \<lparr>m_managed_count = 2, m_capacity = 3, m_allocator = default_allocator,
          m_allocated_space = [], m_free_objects = [1, 0]\<rparr>)
   \<and> \<not> in_use (\<lparr>m_managed_count = 2, m_capacity = 3, m_allocator = default_allocator,
          m_allocated_space = [], m_free_objects = [1, 0]\<rparr> :: unit impl)
   \<and> in_use (\<lparr>m_managed_count = 2, m_capacity = 3, m_allocator = default_allocator,
          m_allocated_space = [], m_free_objects = [2, 1, 0]\<rparr> :: unit impl)"
  by (simp add: impl_count_value_eq upt_0_3 resize_def resize_value_def set_managed_count_def
      acquired_object_destroy_def release_def deleter_def return_object_def
      size_impl_def acquire_def acquired_object_move_def taken_from_def acquired_object_lend_def
      in_use_def)

section \<open>Shrinking\<close>

text \<open>
  Claim C6. When the pool has more free objects than \<open>count\<close>, \<open>resize(count)\<close> (and
  \<open>resize(count, value)\<close>, which does the same since nothing is constructed) completes,
  destructs the top \<open>size - count\<close> objects of the free stack and no other, pushes their
  slots onto the uninitialized stack in that order, leaves \<open>size() = count\<close>, and sets
  \<open>managed_count\<close> to \<open>count\<close> whatever it was before, so without regard to objects that
  are lent out. Where the free objects are distinct and alive, exactly \<open>size - count\<close>
  objects have ceased to exist.
\<close>

theorem resize_shrinks_free_stack:
  assumes "count < size_impl p"
  shows "\<exists>p' mem'. resize tp_default count p mem = Inr (p', mem')
     \<and> resize_value count v p mem = Inr (p', mem')
     \<and> m_free_objects p' = drop (size_impl p - count) (m_free_objects p)
     \<and> m_allocated_space p' =
         rev (take (size_impl p - count) (m_free_objects p)) @ m_allocated_space p
     \<and> objects mem' =
         (\<lambda>a. if a \<in> set (take (size_impl p - count) (m_free_objects p)) then None
              else objects mem a)
     \<and> length (take (size_impl p - count) (m_free_objects p)) = size_impl p - count
     \<and> size_impl p' = count
     \<and> managed_count p' = count
     \<and> capacity p' = capacity p
     \<and> (distinct (m_free_objects p) \<and> set (m_free_objects p) \<subseteq> dom (objects mem) \<longrightarrow>
          card (dom (objects mem) - dom (objects mem')) = size_impl p - count)"
proof -
  let ?k = "size_impl p - count"
  let ?gone = "take ?k (m_free_objects p)"
  let ?p' = "p\<lparr>m_allocated_space := rev ?gone @ m_allocated_space p,
               m_free_objects := drop ?k (m_free_objects p),
               m_managed_count := count\<rparr>"
  let ?mem' = "mem\<lparr>objects := (\<lambda>a. if a \<in> set ?gone then None else objects mem a)\<rparr>"
  have k: "?k \<le> length (m_free_objects p)" by (simp add: size_impl_def)
  have sh: "resize_shrink (length (m_free_objects p) - count) p mem =
         Inr (p\<lparr>m_allocated_space := rev ?gone @ m_allocated_space p,
               m_free_objects := drop ?k (m_free_objects p)\<rparr>, ?mem')"
    using resize_shrink_eq [OF k, of mem] by (simp add: size_impl_def)
  have r: "resize_value count w p mem = Inr (?p', ?mem')" for w
    using assms by (simp add: resize_value_def Let_def sh set_managed_count_def size_impl_def)
  have len: "length ?gone = ?k" using k by simp
  have card: "card (dom (objects mem) - dom (objects ?mem')) = ?k"
    if d: "distinct (m_free_objects p)" and live: "set (m_free_objects p) \<subseteq> dom (objects mem)"
  proof -
    have "set ?gone \<subseteq> dom (objects mem)"
      using live set_take_subset [of ?k "m_free_objects p"] by blast
    then have "dom (objects mem) - dom (objects ?mem') = set ?gone"
      by (auto simp: dom_def split: if_splits)
    moreover have "card (set ?gone) = length ?gone"
      using d by (simp add: distinct_card)
    ultimately show ?thesis using len by simp
  qed
  have sz: "size_impl ?p' = count" using assms by (simp add: size_impl_def)
  show ?thesis
    apply (rule exI [of _ ?p'], rule exI [of _ ?mem'])
    using r [of tp_default] r [of v] len sz card
    by (simp add: resize_def managed_count_def capacity_def)
qed

text \<open>\<open>resize(2)\<close> on a pool of five free objects: three are destructed, two stay.\<close>

theorem resize_shrinks_free_stack_witness:
  "size_impl (fst (impl_count_value 5 () default_allocator \<lparr>next_free = 0, objects = Map.empty\<rparr>)) = 5
   \<and> (\<exists>p' mem'.
        resize () 2 (fst (impl_count_value 5 () default_allocator \<lparr>next_free = 0, objects = Map.empty\<rparr>))
          (snd (impl_count_value 5 () default_allocator \<lparr>next_free = 0, objects = Map.empty\<rparr>))
          = Inr (p', mem')
        \<and> size_impl p' = 2
        \<and> managed_count p' = 2
        \<and> m_free_objects p' = [1, 0]
        \<and> m_allocated_space p' = [2, 3, 4]
        \<and> card (dom (objects (snd (impl_count_value 5 () default_allocator
                    \<lparr>next_free = 0, objects = Map.empty\<rparr>))) - dom (objects mem')) = 3)"
proof -
  let ?s = "impl_count_value 5 () default_allocator \<lparr>next_free = 0, objects = Map.empty\<rparr>"
  have fr: "m_free_objects (fst ?s) = [4, 3, 2, 1, 0]"
    by (simp add: impl_count_value_eq upt_0_5)
  have sp: "m_allocated_space (fst ?s) = []"
    by (simp add: impl_count_value_eq)
  have sz: "size_impl (fst ?s) = 5" by (simp add: size_impl_def fr)
  have lt: "2 < size_impl (fst ?s)" by (simp add: sz)
  have d: "distinct (m_free_objects (fst ?s))" by (simp add: fr)
  have live: "set (m_free_objects (fst ?s)) \<subseteq> dom (objects (snd ?s))"
    by (simp add: fr) (simp add: impl_count_value_eq dom_def)
  have t: "take 3 [4, 3, 2, 1, 0::nat] = [4, 3, 2]" "drop 3 [4, 3, 2, 1, 0::nat] = [1, 0]"
    by (simp_all add: numeral_eq_Suc)
  from resize_shrinks_free_stack [OF lt, of "()" "snd ?s" "()"] d live
  show ?thesis
    by (simp add: sz fr sp t) blast
qed

section \<open>Growth on \<open>push\<close>\<close>

text \<open>
  On a full pool of capacity \<open>c > 0\<close>, \<open>push\<close> allocates \<open>c\<close> more slots, so that the
  capacity is \<open>2 * c\<close>, constructs the object in the last of them and pushes it as free.
  In particular the fifth \<open>push\<close> into a pool of capacity 4 gives capacity 8 and size 5.
\<close>

lemma push_doubles_full_pool:
  assumes full: "m_managed_count p = m_capacity p" and pos: "0 < m_capacity p"
  shows "push v p mem =
     Inr (p\<lparr>m_capacity := m_capacity p * 2,
            m_allocated_space :=
              rev [next_free mem ..< next_free mem + m_capacity p - 1] @ m_allocated_space p,
            m_free_objects := (next_free mem + m_capacity p - 1) # m_free_objects p,
            m_managed_count := Suc (m_managed_count p)\<rparr>,
          mem\<lparr>next_free := next_free mem + m_capacity p,
              objects := (objects mem)(next_free mem + m_capacity p - 1 \<mapsto> v)\<rparr>)"
proof -
  from pos obtain c where c: "m_capacity p = Suc c"
    by (cases "m_capacity p") auto
  have "[next_free mem ..< next_free mem + Suc c] = [next_free mem ..< next_free mem + c] @ [next_free mem + c]"
    by simp
  then have r: "rev [next_free mem ..< next_free mem + Suc c] =
             (next_free mem + c) # rev [next_free mem ..< next_free mem + c]"
    by (simp only: rev_append rev.simps append.simps)
  show ?thesis
    using full r by (simp add: push_def reallocate_def push_fresh_slots_eq c construct_def)
qed

lemma fifth_push_grows:
  assumes "m_capacity p = 4" and "m_managed_count p = 4" and "length (m_free_objects p) = 4"
  shows "\<exists>p' mem'. push v p mem = Inr (p', mem') \<and> capacity p' = 8 \<and> size_impl p' = 5
           \<and> managed_count p' = 5"
  using assms push_doubles_full_pool [of p v mem]
  by (simp add: capacity_def size_impl_def managed_count_def)

text \<open>
  Claim C5 says this of every pool with \<open>managed_count = capacity\<close>. A pool constructed
  with \<open>count = 0\<close> is such a pool, with capacity 0 and no raw slot: doubling 0 allocates
  nothing, and \<open>push\<close> (and \<open>emplace\<close>) then calls \<open>top()\<close> on the empty slot stack, which
  is undefined behaviour, instead of constructing the object.
\<close>

theorem push_on_zero_capacity_pool:
  "m_managed_count (fst (impl_count_value 0 v0 alloc mem)) =
     m_capacity (fst (impl_count_value 0 v0 alloc mem))
   \<and> push v (fst (impl_count_value 0 v0 alloc mem)) (snd (impl_count_value 0 v0 alloc mem))
       = Inl EmptyStackAccess
   \<and> emplace v (fst (impl_count_value 0 v0 alloc mem)) (snd (impl_count_value 0 v0 alloc mem))
       = Inl EmptyStackAccess"
  by (simp add: impl_count_value_def emplace_def push_def reallocate_def)

section \<open>Waiting for an object\<close>

text \<open>
  With a time limit other than zero, \<open>acquire_wait\<close> waits for the predicate
  \<open>m_free_objects.empty()\<close>, where the untimed branch waits for its negation. On an empty
  free list the predicate holds at once: the call returns \<open>none\<close> without waiting,
  whatever the other threads would have done.
\<close>

lemma acquire_wait_timed_on_empty:
  assumes "m_free_objects p = []" and "time_limit \<noteq> 0"
  shows "acquire_wait this time_limit wakeups at_timeout p =
           Some (Inr (\<lparr>m_obj = Null, m_pool = None, m_is_initialized = False\<rparr>, p))"
proof -
  have "cv_wait_for (\<lambda>s. m_free_objects s = []) wakeups at_timeout p = (True, p)"
    using assms(1) by (cases wakeups) simp_all
  then show ?thesis
    using assms(2)
    by (simp add: acquire_wait_def acquired_object_move_def taken_from_def cleared_def)
qed

text \<open>
  Claim C1 says that \<open>acquire_wait(timeout)\<close> returns a bound handle when an object
  becomes free before the time is up. The pool here has one object, which is lent out; the
  only wake-up shows the pool after that object has come back (one free object). The call
  with a limit of 50 ms still returns \<open>none\<close>, in the state in which it was called.
\<close>

theorem acquire_wait_ignores_returned_object:
  "size_impl (return_object 0 (snd (acquire 0
       (fst (impl_count_value 1 () default_allocator \<lparr>next_free = 0, objects = Map.empty\<rparr>))))) = 1
   \<and> acquire_wait 0 50
       [return_object 0 (snd (acquire 0
          (fst (impl_count_value 1 () default_allocator \<lparr>next_free = 0, objects = Map.empty\<rparr>))))]
       (return_object 0 (snd (acquire 0
          (fst (impl_count_value 1 () default_allocator \<lparr>next_free = 0, objects = Map.empty\<rparr>)))))
       (snd (acquire 0
          (fst (impl_count_value 1 () default_allocator \<lparr>next_free = 0, objects = Map.empty\<rparr>))))
     = Some (Inr (\<lparr>m_obj = Null, m_pool = None, m_is_initialized = False\<rparr>,
                  snd (acquire 0
          (fst (impl_count_value 1 () default_allocator \<lparr>next_free = 0, objects = Map.empty\<rparr>)))))"
proof -
  let ?p = "fst (impl_count_value 1 () default_allocator \<lparr>next_free = 0, objects = Map.empty\<rparr>)"
  have fr: "m_free_objects ?p = [0]"
    by (simp add: impl_count_value_eq)
  have e: "m_free_objects (snd (acquire 0 ?p)) = []"
    unfolding acquire_def fr by simp
  from e have e': "m_free_objects (snd (acquire 0
      (fst (impl_count_value (Suc 0) () default_allocator \<lparr>next_free = 0, objects = Map.empty\<rparr>)))) = []"
    by simp
  have sz: "size_impl (return_object 0 (snd (acquire 0 ?p))) = 1"
    by (simp add: size_impl_def return_object_def e')
  have w: "acquire_wait 0 50 wakeups at_timeout (snd (acquire 0 ?p)) =
             Some (Inr (\<lparr>m_obj = Null, m_pool = None, m_is_initialized = False\<rparr>,
                        snd (acquire 0 ?p)))" for wakeups at_timeout
    by (rule acquire_wait_timed_on_empty [OF e]) simp
  from sz w show ?thesis by (rule conjI)
qed

section \<open>The invariant\<close>

text \<open>
  What each operation does to the three numbers of the invariant: the number of free
  objects, \<open>managed_count\<close> and \<open>capacity\<close>.
\<close>

lemma push_counts:
  "push v p mem = Inr (p', mem') \<Longrightarrow>
   length (m_free_objects p') = Suc (length (m_free_objects p))
   \<and> m_managed_count p' = Suc (m_managed_count p)
   \<and> m_capacity p' = (if m_managed_count p = m_capacity p then m_capacity p * 2 else m_capacity p)"
  by (auto simp: push_def reallocate_def push_fresh_slots_eq split: if_splits list.splits)


lemma acquire_counts:
  "size_impl (snd (acquire this p)) = size_impl p - 1
   \<and> managed_count (snd (acquire this p)) = managed_count p
   \<and> capacity (snd (acquire this p)) = capacity p"
  by (cases "m_free_objects p")
     (simp_all add: acquire_def size_impl_def managed_count_def capacity_def)

lemma allocate_counts:
  "capacity (fst (snd (allocate this v p mem))) = capacity p
   \<and> (m_free_objects p \<noteq> [] \<longrightarrow>
        size_impl (fst (snd (allocate this v p mem))) = size_impl p - 1
        \<and> managed_count (fst (snd (allocate this v p mem))) = managed_count p)
   \<and> (m_free_objects p = [] \<longrightarrow>
        m_free_objects (fst (snd (allocate this v p mem))) = []
        \<and> managed_count (fst (snd (allocate this v p mem))) = managed_count p + 1)"
  by (cases "m_free_objects p")
     (simp_all add: allocate_def allocate1_def size_impl_def managed_count_def capacity_def)

lemma reserve_counts:
  "size_impl (fst (reserve new_cap p mem)) = size_impl p
   \<and> managed_count (fst (reserve new_cap p mem)) = managed_count p
   \<and> capacity (fst (reserve new_cap p mem)) = max (capacity p) new_cap"
  by (simp add: reserve_def push_fresh_slots_eq size_impl_def managed_count_def capacity_def)

lemma return_object_counts:
  "size_impl (return_object obj p) = size_impl p + 1
   \<and> managed_count (return_object obj p) = managed_count p
   \<and> capacity (return_object obj p) = capacity p"
  by (simp add: return_object_def size_impl_def managed_count_def capacity_def)

lemma push_counts2:
  "push v p mem = Inr (p', mem') \<Longrightarrow>
   size_impl p' = size_impl p + 1
   \<and> managed_count p' = managed_count p + 1
   \<and> capacity p' = (if managed_count p = capacity p then capacity p * 2 else capacity p)"
  by (drule push_counts) (simp add: size_impl_def managed_count_def capacity_def)

lemma push_completes_iff:
  "(\<exists>p' mem'. push v p mem = Inr (p', mem')) =
   (m_allocated_space p \<noteq> [] \<or> (managed_count p = capacity p \<and> 0 < capacity p))"
proof (cases "m_managed_count p = m_capacity p")
  case full: True
  show ?thesis
  proof (cases "m_capacity p")
    case 0
    with full show ?thesis
      by (cases "m_allocated_space p")
         (simp_all add: push_def reallocate_def managed_count_def capacity_def)
  next
    case (Suc c)
    then have "0 < m_capacity p" by simp
    from push_doubles_full_pool [OF full this, of v mem] Suc full show ?thesis
      by (simp add: managed_count_def capacity_def)
  qed
next
  case False
  then show ?thesis
    by (cases "m_allocated_space p") (simp_all add: push_def managed_count_def capacity_def)
qed

lemma resize_value_counts:
  assumes res: "resize_value count v p mem = Inr (p', mem')"
  shows "size_impl p' = count \<and> managed_count p' = count
     \<and> capacity p' = (if count > size_impl p \<and> count > capacity p then count else capacity p)"
proof (cases "count > length (m_free_objects p)")
  case True
  define p1 where "p1 = fst (if count > m_capacity p then reallocate count p mem else (p, mem))"
  define mem1 where "mem1 = snd (if count > m_capacity p then reallocate count p mem else (p, mem))"
  have p1: "length (m_free_objects p1) = length (m_free_objects p)"
    "m_capacity p1 = (if count > m_capacity p then count else m_capacity p)"
    by (auto simp: p1_def reallocate_def push_fresh_slots_eq)
  from res True obtain p2 where g: "resize_grow (count - length (m_free_objects p)) v p1 mem1 = Inr (p2, mem')"
    and p': "p' = p2\<lparr>m_managed_count := count\<rparr>"
    by (auto simp: resize_value_def Let_def set_managed_count_def p1_def mem1_def
        split: prod.splits sum.splits if_splits)
  from resize_grow_counts [OF g] p1 True show ?thesis
    by (simp add: p' size_impl_def managed_count_def capacity_def)
next
  case False
  from res False obtain p2 where g: "resize_shrink (length (m_free_objects p) - count) p mem = Inr (p2, mem')"
    and p': "p' = p2\<lparr>m_managed_count := count\<rparr>"
    by (auto simp: resize_value_def Let_def set_managed_count_def split: sum.splits)
  from resize_shrink_counts [OF g] False show ?thesis
    by (auto simp: p' size_impl_def managed_count_def capacity_def)
qed

lemma pop_into_counts:
  "pop_into this s = Inr (h, p') \<Longrightarrow>
   size_impl p' + 1 = size_impl s \<and> managed_count p' = managed_count s
   \<and> capacity p' = capacity s"
  by (auto simp: pop_into_def size_impl_def managed_count_def capacity_def split: list.splits)

lemma acquire_wait_counts:
  assumes res: "acquire_wait this time_limit wakeups at_timeout p = Some (Inr (h, p'))"
  shows "\<exists>s \<in> set (p # at_timeout # wakeups).
           size_impl p' \<le> size_impl s \<and> managed_count p' = managed_count s
           \<and> capacity p' = capacity s"
proof (cases "time_limit = 0")
  case True
  with res obtain s where w: "cv_wait (\<lambda>s. m_free_objects s \<noteq> []) wakeups p = Some s"
    and pop: "pop_into this s = Inr (h, p')"
    by (auto simp: acquire_wait_def split: option.splits)
  from cv_wait_result [OF w] have "s \<in> set (p # at_timeout # wakeups)" by auto
  with pop_into_counts [OF pop] show ?thesis by (intro bexI [of _ s]) auto
next
  case False
  obtain b s where w: "cv_wait_for (\<lambda>s. m_free_objects s = []) wakeups at_timeout p = (b, s)"
    by (cases "cv_wait_for (\<lambda>s. m_free_objects s = []) wakeups at_timeout p")
  from cv_wait_for_result [OF w] have s: "s \<in> set (p # at_timeout # wakeups)" by auto
  show ?thesis
  proof (cases b)
    case True
    with res w False have "p' = s" by (simp add: acquire_wait_def)
    with s show ?thesis by (intro bexI [of _ s]) auto
  next
    case b: False
    with res w False have "pop_into this s = Inr (h, p')" by (simp add: acquire_wait_def)
    from pop_into_counts [OF this] s show ?thesis by (intro bexI [of _ s]) auto
  qed
qed

lemma allocate_on_empty:
  "m_free_objects p = [] \<Longrightarrow>
   snd (allocate this v p mem) =
     (p\<lparr>m_managed_count := Suc (m_managed_count p)\<rparr>,
      mem\<lparr>next_free := Suc (next_free mem), objects := (objects mem)(next_free mem \<mapsto> v)\<rparr>)"
  by (simp add: allocate_def allocate1_def construct_def)


text \<open>
  Claim C2 says that every operation leaves
  \<open>free_objects.size() \<le> managed_count \<le> capacity\<close>. It holds of a default pool and
  still after four calls of \<open>allocate\<close> whose handles are kept; the fifth \<open>allocate\<close>
  finds the free list empty again, constructs a new object and counts it, and
  \<open>managed_count\<close> is 5 with \<open>capacity\<close> 4.
\<close>

theorem invariant_broken_by_allocate:
  "(let s0 = object_pool_default \<lparr>next_free = 0, objects = Map.empty\<rparr>;
        s1 = snd (allocate 0 () (fst s0) (snd s0));
        s2 = snd (allocate 0 () (fst s1) (snd s1));
        s3 = snd (allocate 0 () (fst s2) (snd s2));
        s4 = snd (allocate 0 () (fst s3) (snd s3));
        s5 = snd (allocate 0 () (fst s4) (snd s4))
    in pool_invariant (fst s0) \<and> pool_invariant (fst s4)
       \<and> managed_count (fst s5) = 5 \<and> capacity (fst s5) = 4 \<and> size_impl (fst s5) = 0
       \<and> \<not> pool_invariant (fst s5))"
  by (simp add: Let_def object_pool_default_def object_pool_alloc_def impl_alloc_eq
      allocate_on_empty pool_invariant_def managed_count_def capacity_def size_impl_def)


text \<open>
  The invariant also fails in states reached through \<open>resize\<close> and \<open>swap\<close>. A pool of
  three objects with one borrowed is resized to two and then gets the borrowed object
  back: three free objects, \<open>managed_count\<close> 2.
\<close>

lemma invariant_broken_by_return_after_resize:
  "pool_invariant (fst (impl_count_value 3 () default_allocator \<lparr>next_free = 0, objects = Map.empty\<rparr>))
   \<and> acquire 0 (fst (impl_count_value 3 () default_allocator \<lparr>next_free = 0, objects = Map.empty\<rparr>))
      = (\<lparr>m_obj = Ptr 2, m_pool = Some 0, m_is_initialized = True\<rparr>,
         \<lparr>m_managed_count = 3, m_capacity = 3, m_allocator = default_allocator,
          m_allocated_space = [], m_free_objects = [1, 0]\<rparr>)
   \<and> resize () 2 (\<lparr>m_managed_count = 3, m_capacity = 3, m_allocator = default_allocator,
          m_allocated_space = [], m_free_objects = [1, 0]\<rparr> :: unit impl) mem
      = Inr (\<lparr>m_managed_count = 2, m_capacity = 3, m_allocator = default_allocator,
          m_allocated_space = [], m_free_objects = [1, 0]\<rparr>, mem)
   \<and> pool_invariant (\<lparr>m_managed_count = 2, m_capacity = 3, m_allocator = default_allocator,
          m_allocated_space = [], m_free_objects = [1, 0]\<rparr> :: unit impl)
   \<and> return_object 2 (\<lparr>m_managed_count = 2, m_capacity = 3, m_allocator = default_allocator,
          m_allocated_space = [], m_free_objects = [1, 0]\<rparr> :: unit impl)
      = \<lparr>m_managed_count = 2, m_capacity = 3, m_allocator = default_allocator,
          m_allocated_space = [], m_free_objects = [2, 1, 0]\<rparr>
   \<and> \<not> pool_invariant (\<lparr>m_managed_count = 2, m_capacity = 3, m_allocator = default_allocator,
          m_allocated_space = [], m_free_objects = [2, 1, 0]\<rparr> :: unit impl)"
  by (simp add: impl_count_value_eq upt_0_3 pool_invariant_def acquire_def
      acquired_object_move_def taken_from_def acquired_object_lend_def
      resize_def resize_value_def set_managed_count_def return_object_def)

text \<open>
  A default pool swapped with a pool constructed with \<open>count = 0\<close> has capacity 0 and
  keeps its four raw slots; \<open>push\<close> doubles 0, takes one of the slots and completes, with
  \<open>managed_count\<close> 1 and \<open>capacity\<close> 0.
\<close>

lemma invariant_broken_by_push_after_swap:
  "(let sa = impl_alloc default_allocator \<lparr>next_free = 0, objects = (Map.empty :: nat \<rightharpoonup> unit)\<rparr>;
        sb = impl_count_value 0 () default_allocator (snd sa);
        sw = swap_impl (fst sa) (fst sb)
    in pool_invariant (fst sa) \<and> pool_invariant (fst sb) \<and> pool_invariant (fst sw)
       \<and> capacity (fst sw) = 0 \<and> m_allocated_space (fst sw) = [3, 2, 1, 0]
       \<and> (\<exists>p' mem'. push () (fst sw) (snd sb) = Inr (p', mem')
            \<and> managed_count p' = 1 \<and> capacity p' = 0 \<and> \<not> pool_invariant p'))"
  by (simp add: Let_def impl_alloc_eq impl_count_value_eq swap_impl_def pool_invariant_def
      capacity_def managed_count_def push_def reallocate_def)

text \<open>
  The invariant does not make \<open>push\<close> complete: the pool of three objects with one
  borrowed and resized to two satisfies it, with capacity 3, and has no raw slot.
\<close>

lemma push_after_resize_reads_empty_stack:
  "pool_invariant (\<lparr>m_managed_count = 2, m_capacity = 3, m_allocator = default_allocator,
          m_allocated_space = [], m_free_objects = [1, 0]\<rparr> :: unit impl)
   \<and> push () (\<lparr>m_managed_count = 2, m_capacity = 3, m_allocator = default_allocator,
          m_allocated_space = [], m_free_objects = [1, 0]\<rparr> :: unit impl) mem
      = Inl EmptyStackAccess"
  by (simp add: pool_invariant_def push_def)

text \<open>
  Claim C2, amended. The three constructors establish
  \<open>free_objects.size() \<le> managed_count \<le> capacity\<close>. Each half is then kept on its
  own, whether or not the other holds.

  \<^item> \<open>free_objects.size() \<le> managed_count\<close> is preserved by \<open>acquire\<close>, \<open>acquire_wait\<close>
    (for the states it is shown while waiting), \<open>allocate\<close> and \<open>reserve\<close>, and by \<open>push\<close>
    and \<open>emplace\<close> when they complete. A \<open>resize\<close> that completes leaves
    \<open>free_objects.size() = managed_count = count\<close>. \<open>return_object\<close> adds one free
    object and changes neither \<open>managed_count\<close> nor \<open>capacity\<close>, so it keeps this half
    exactly when \<open>free_objects.size() < managed_count\<close> before.
  \<^item> \<open>managed_count \<le> capacity\<close> is preserved by \<open>acquire\<close>, \<open>acquire_wait\<close>, \<open>reserve\<close>
    and \<open>return_object\<close>, by \<open>allocate\<close> when the free list is not empty, by a \<open>push\<close> or
    \<open>emplace\<close> that completes when \<open>capacity > 0\<close>, and by a \<open>resize\<close> that completes when
    \<open>free_objects.size() \<le> capacity\<close> before.
  \<^item> \<open>allocate\<close> on an empty free list adds exactly one to \<open>managed_count\<close> and leaves
    \<open>capacity\<close> and the free list as they are; \<open>allocate\<close> never changes \<open>capacity\<close>.
  \<^item> \<open>push\<close> and \<open>emplace\<close> complete exactly when the slot stack is not empty or the pool
    is full (\<open>managed_count = capacity\<close>) with \<open>capacity > 0\<close>.
\<close>

theorem invariant_preserved:
  "pool_invariant (fst (impl_alloc alloc mem))
   \<and> pool_invariant (fst (impl_count_value count v alloc mem))
   \<and> pool_invariant (fst (impl_count tp_default count alloc mem))
   \<and> (size_impl p \<le> managed_count p \<longrightarrow>
        size_impl (snd (acquire this p)) \<le> managed_count (snd (acquire this p))
        \<and> size_impl (fst (snd (allocate this v p mem)))
             \<le> managed_count (fst (snd (allocate this v p mem)))
        \<and> size_impl (fst (reserve new_cap p mem)) \<le> managed_count (fst (reserve new_cap p mem))
        \<and> (\<forall>p' mem'. push v p mem = Inr (p', mem') \<longrightarrow> size_impl p' \<le> managed_count p')
        \<and> (\<forall>p' mem'. emplace v p mem = Inr (p', mem') \<longrightarrow> size_impl p' \<le> managed_count p'))
   \<and> (\<forall>p' mem'. resize tp_default count p mem = Inr (p', mem') \<longrightarrow>
          size_impl p' = count \<and> managed_count p' = count)
   \<and> (\<forall>p' mem'. resize_value count v p mem = Inr (p', mem') \<longrightarrow>
          size_impl p' = count \<and> managed_count p' = count)
   \<and> size_impl (return_object obj p) = size_impl p + 1
   \<and> managed_count (return_object obj p) = managed_count p
   \<and> capacity (return_object obj p) = capacity p
   \<and> (size_impl (return_object obj p) \<le> managed_count (return_object obj p))
        = (size_impl p < managed_count p)
   \<and> (managed_count p \<le> capacity p \<longrightarrow>
        managed_count (snd (acquire this p)) \<le> capacity (snd (acquire this p))
        \<and> managed_count (fst (reserve new_cap p mem)) \<le> capacity (fst (reserve new_cap p mem))
        \<and> managed_count (return_object obj p) \<le> capacity (return_object obj p)
        \<and> (m_free_objects p \<noteq> [] \<longrightarrow>
             managed_count (fst (snd (allocate this v p mem)))
               \<le> capacity (fst (snd (allocate this v p mem))))
        \<and> (0 < capacity p \<longrightarrow>
             (\<forall>p' mem'. push v p mem = Inr (p', mem') \<longrightarrow> managed_count p' \<le> capacity p')
             \<and> (\<forall>p' mem'. emplace v p mem = Inr (p', mem') \<longrightarrow>
                   managed_count p' \<le> capacity p')))
   \<and> (size_impl p \<le> capacity p \<longrightarrow>
        (\<forall>p' mem'. resize tp_default count p mem = Inr (p', mem') \<longrightarrow>
           managed_count p' \<le> capacity p')
        \<and> (\<forall>p' mem'. resize_value count v p mem = Inr (p', mem') \<longrightarrow>
              managed_count p' \<le> capacity p'))
   \<and> (m_free_objects p = [] \<longrightarrow>
        managed_count (fst (snd (allocate this v p mem))) = managed_count p + 1
        \<and> m_free_objects (fst (snd (allocate this v p mem))) = [])
   \<and> capacity (fst (snd (allocate this v p mem))) = capacity p
   \<and> (\<exists>p' mem'. push v p mem = Inr (p', mem'))
        = (m_allocated_space p \<noteq> [] \<or> (managed_count p = capacity p \<and> 0 < capacity p))
   \<and> (\<exists>p' mem'. emplace v p mem = Inr (p', mem'))
        = (m_allocated_space p \<noteq> [] \<or> (managed_count p = capacity p \<and> 0 < capacity p))
   \<and> (\<forall>h p'. acquire_wait this time_limit wakeups at_timeout p = Some (Inr (h, p')) \<longrightarrow>
        ((\<forall>s \<in> set (p # at_timeout # wakeups). size_impl s \<le> managed_count s) \<longrightarrow>
           size_impl p' \<le> managed_count p')
        \<and> ((\<forall>s \<in> set (p # at_timeout # wakeups). managed_count s \<le> capacity s) \<longrightarrow>
              managed_count p' \<le> capacity p'))"
proof -
  have ctor: "pool_invariant (fst (impl_alloc alloc mem))"
    "pool_invariant (fst (impl_count_value count v alloc mem))"
    "pool_invariant (fst (impl_count tp_default count alloc mem))"
    by (simp_all add: impl_alloc_eq impl_count_def impl_count_value_eq pool_invariant_def)
  note acq = acquire_counts [of this p]
  note al = allocate_counts [of this v p mem]
  note rs = reserve_counts [of new_cap p mem]
  note ro = return_object_counts [of obj p]
  have half1: "size_impl (snd (acquire this p)) \<le> managed_count (snd (acquire this p))
        \<and> size_impl (fst (snd (allocate this v p mem)))
             \<le> managed_count (fst (snd (allocate this v p mem)))
        \<and> size_impl (fst (reserve new_cap p mem)) \<le> managed_count (fst (reserve new_cap p mem))
        \<and> (\<forall>p' mem'. push v p mem = Inr (p', mem') \<longrightarrow> size_impl p' \<le> managed_count p')
        \<and> (\<forall>p' mem'. emplace v p mem = Inr (p', mem') \<longrightarrow> size_impl p' \<le> managed_count p')"
    if h: "size_impl p \<le> managed_count p"
  proof (intro conjI allI impI)
    show "size_impl (snd (acquire this p)) \<le> managed_count (snd (acquire this p))"
      using h acq by simp
    show "size_impl (fst (snd (allocate this v p mem)))
             \<le> managed_count (fst (snd (allocate this v p mem)))"
      using h al by (cases "m_free_objects p") (simp_all add: size_impl_def)
    show "size_impl (fst (reserve new_cap p mem)) \<le> managed_count (fst (reserve new_cap p mem))"
      using h rs by simp
    show "size_impl p' \<le> managed_count p'" if "push v p mem = Inr (p', mem')" for p' mem'
      using h push_counts2 [OF that] by simp
    show "size_impl p' \<le> managed_count p'" if "emplace v p mem = Inr (p', mem')" for p' mem'
      using h push_counts2 [of v p mem p' mem'] that by (simp add: emplace_def)
  qed
  have rz: "size_impl p' = count \<and> managed_count p' = count"
    if "resize_value count w p mem = Inr (p', mem')" for w p' mem'
    using resize_value_counts [OF that] by simp
  have rz2: "managed_count p' \<le> capacity p'"
    if "size_impl p \<le> capacity p" "resize_value count w p mem = Inr (p', mem')" for w p' mem'
    using resize_value_counts [OF that(2)] that(1) by (auto split: if_splits)
  have half2: "managed_count (snd (acquire this p)) \<le> capacity (snd (acquire this p))
        \<and> managed_count (fst (reserve new_cap p mem)) \<le> capacity (fst (reserve new_cap p mem))
        \<and> managed_count (return_object obj p) \<le> capacity (return_object obj p)
        \<and> (m_free_objects p \<noteq> [] \<longrightarrow>
             managed_count (fst (snd (allocate this v p mem)))
               \<le> capacity (fst (snd (allocate this v p mem))))
        \<and> (0 < capacity p \<longrightarrow>
             (\<forall>p' mem'. push v p mem = Inr (p', mem') \<longrightarrow> managed_count p' \<le> capacity p')
             \<and> (\<forall>p' mem'. emplace v p mem = Inr (p', mem') \<longrightarrow>
                   managed_count p' \<le> capacity p'))"
    if h: "managed_count p \<le> capacity p"
  proof (intro conjI allI impI)
    show "managed_count (snd (acquire this p)) \<le> capacity (snd (acquire this p))"
      using h acq by simp
    show "managed_count (fst (reserve new_cap p mem)) \<le> capacity (fst (reserve new_cap p mem))"
      using h rs by simp
    show "managed_count (return_object obj p) \<le> capacity (return_object obj p)"
      using h ro by simp
    show "managed_count (fst (snd (allocate this v p mem)))
               \<le> capacity (fst (snd (allocate this v p mem)))" if "m_free_objects p \<noteq> []"
      using h al that by simp
    show "managed_count p' \<le> capacity p'"
      if "0 < capacity p" "push v p mem = Inr (p', mem')" for p' mem'
      using h that(1) push_counts2 [OF that(2)] by (simp split: if_splits)
    show "managed_count p' \<le> capacity p'"
      if "0 < capacity p" "emplace v p mem = Inr (p', mem')" for p' mem'
      using h that(1) push_counts2 [of v p mem p' mem'] that(2)
      by (simp add: emplace_def split: if_splits)
  qed
  have aw: "((\<forall>s \<in> set (p # at_timeout # wakeups). size_impl s \<le> managed_count s) \<longrightarrow>
           size_impl p' \<le> managed_count p')
        \<and> ((\<forall>s \<in> set (p # at_timeout # wakeups). managed_count s \<le> capacity s) \<longrightarrow>
              managed_count p' \<le> capacity p')"
    if "acquire_wait this time_limit wakeups at_timeout p = Some (Inr (h, p'))" for h p'
    using acquire_wait_counts [OF that] by fastforce
  have ro_iff: "(size_impl (return_object obj p) \<le> managed_count (return_object obj p))
        = (size_impl p < managed_count p)"
    using ro by auto
  have pc: "(\<exists>p' mem'. push v p mem = Inr (p', mem'))
        = (m_allocated_space p \<noteq> [] \<or> (managed_count p = capacity p \<and> 0 < capacity p))"
    by (rule push_completes_iff)
  have ec: "(\<exists>p' mem'. emplace v p mem = Inr (p', mem'))
        = (m_allocated_space p \<noteq> [] \<or> (managed_count p = capacity p \<and> 0 < capacity p))"
    unfolding emplace_def by (rule push_completes_iff)
  show ?thesis
    apply (intro conjI)
    apply (rule ctor)+
    subgoal using half1 by blast
    subgoal using rz [of tp_default] by (simp add: resize_def)
    subgoal using rz [of v] by simp
    subgoal using ro by simp
    subgoal using ro by simp
    subgoal using ro by simp
    subgoal by (rule ro_iff)
    subgoal using half2 by blast
    subgoal using rz2 [of tp_default] rz2 [of v] by (simp add: resize_def)
    subgoal using al by simp
    subgoal using al by simp
    subgoal by (rule pc)
    subgoal by (rule ec)
    subgoal using aw by blast
    done
qed

text \<open>
  A pool of capacity 4 that manages two objects, one of them lent out, with two raw
  slots: every operation above applies to it and completes. For \<open>allocate\<close> on an empty
  free list, the same pool with both objects lent out.
\<close>

theorem invariant_preserved_witness:
  "size_impl (snd (acquire 0 (\<lparr>m_managed_count = 2, m_capacity = 4, m_allocator = default_allocator,
        m_allocated_space = [3, 2], m_free_objects = [0]\<rparr> :: unit impl)))
     \<le> managed_count (snd (acquire 0 (\<lparr>m_managed_count = 2, m_capacity = 4,
        m_allocator = default_allocator, m_allocated_space = [3, 2], m_free_objects = [0]\<rparr> :: unit impl)))
   \<and> (\<exists>p' mem'. push () (\<lparr>m_managed_count = 2, m_capacity = 4, m_allocator = default_allocator,
          m_allocated_space = [3, 2], m_free_objects = [0]\<rparr> :: unit impl)
          \<lparr>next_free = 4, objects = [0 \<mapsto> (), 1 \<mapsto> ()]\<rparr> = Inr (p', mem')
        \<and> size_impl p' \<le> managed_count p' \<and> managed_count p' \<le> capacity p')
   \<and> (\<exists>p' mem'. emplace () (\<lparr>m_managed_count = 2, m_capacity = 4, m_allocator = default_allocator,
          m_allocated_space = [3, 2], m_free_objects = [0]\<rparr> :: unit impl)
          \<lparr>next_free = 4, objects = [0 \<mapsto> (), 1 \<mapsto> ()]\<rparr> = Inr (p', mem')
        \<and> size_impl p' \<le> managed_count p' \<and> managed_count p' \<le> capacity p')
   \<and> (\<exists>p' mem'. resize () 3 (\<lparr>m_managed_count = 2, m_capacity = 4, m_allocator = default_allocator,
          m_allocated_space = [3, 2], m_free_objects = [0]\<rparr> :: unit impl)
          \<lparr>next_free = 4, objects = [0 \<mapsto> (), 1 \<mapsto> ()]\<rparr> = Inr (p', mem')
        \<and> size_impl p' = 3 \<and> managed_count p' = 3 \<and> managed_count p' \<le> capacity p')
   \<and> (\<exists>p' mem'. resize_value 3 () (\<lparr>m_managed_count = 2, m_capacity = 4,
          m_allocator = default_allocator, m_allocated_space = [3, 2], m_free_objects = [0]\<rparr> :: unit impl)
          \<lparr>next_free = 4, objects = [0 \<mapsto> (), 1 \<mapsto> ()]\<rparr> = Inr (p', mem')
        \<and> size_impl p' = 3 \<and> managed_count p' = 3 \<and> managed_count p' \<le> capacity p')
   \<and> managed_count (fst (snd (allocate 0 () (\<lparr>m_managed_count = 2, m_capacity = 4,
          m_allocator = default_allocator, m_allocated_space = [3, 2], m_free_objects = [0]\<rparr> :: unit impl)
          \<lparr>next_free = 4, objects = [0 \<mapsto> (), 1 \<mapsto> ()]\<rparr>)))
       \<le> capacity (fst (snd (allocate 0 () (\<lparr>m_managed_count = 2, m_capacity = 4,
          m_allocator = default_allocator, m_allocated_space = [3, 2], m_free_objects = [0]\<rparr> :: unit impl)
          \<lparr>next_free = 4, objects = [0 \<mapsto> (), 1 \<mapsto> ()]\<rparr>)))
   \<and> managed_count (fst (snd (allocate 0 () (\<lparr>m_managed_count = 2, m_capacity = 4,
          m_allocator = default_allocator, m_allocated_space = [3, 2], m_free_objects = []\<rparr> :: unit impl)
          \<lparr>next_free = 4, objects = [0 \<mapsto> (), 1 \<mapsto> ()]\<rparr>))) = 3
   \<and> (\<exists>h p'. acquire_wait 0 50 [] (\<lparr>m_managed_count = 2, m_capacity = 4,
          m_allocator = default_allocator, m_allocated_space = [3, 2], m_free_objects = [0]\<rparr> :: unit impl)
          (\<lparr>m_managed_count = 2, m_capacity = 4,
          m_allocator = default_allocator, m_allocated_space = [3, 2], m_free_objects = [0]\<rparr> :: unit impl)
          = Some (Inr (h, p'))
        \<and> size_impl p' \<le> managed_count p' \<and> managed_count p' \<le> capacity p')"
proof -
  define p :: "unit impl" where "p = \<lparr>m_managed_count = 2, m_capacity = 4,
     m_allocator = default_allocator, m_allocated_space = [3, 2], m_free_objects = [0]\<rparr>"
  define q :: "unit impl" where "q = \<lparr>m_managed_count = 2, m_capacity = 4,
     m_allocator = default_allocator, m_allocated_space = [3, 2], m_free_objects = []\<rparr>"
  define mem :: "unit memory" where "mem = \<lparr>next_free = 4, objects = [0 \<mapsto> (), 1 \<mapsto> ()]\<rparr>"
  have h1: "size_impl p \<le> managed_count p" and h2: "managed_count p \<le> capacity p"
    and cap: "0 < capacity p" and szc: "size_impl p \<le> capacity p"
    and ne: "m_free_objects p \<noteq> []" and e: "m_free_objects q = []"
    and mq: "managed_count q = 2"
    by (simp_all add: p_def q_def size_impl_def managed_count_def capacity_def)
  have env1: "\<forall>s \<in> set (p # p # []). size_impl s \<le> managed_count s"
    and env2: "\<forall>s \<in> set (p # p # []). managed_count s \<le> capacity s"
    using h1 h2 by simp_all
  obtain p1 mem1 where pu: "push () p mem = Inr (p1, mem1)"
    by (simp add: push_def p_def)
  then have em: "emplace () p mem = Inr (p1, mem1)"
    by (simp add: emplace_def)
  obtain p2 mem2 where rv: "resize_value 3 () p mem = Inr (p2, mem2)"
    by (simp add: resize_value_def set_managed_count_def numeral_eq_Suc p_def)
  then have re: "resize () 3 p mem = Inr (p2, mem2)"
    by (simp add: resize_def)
  obtain h p3 where aw: "acquire_wait 0 50 [] p p = Some (Inr (h, p3))"
    by (simp add: acquire_wait_def pop_into_def p_def)
  note T = invariant_preserved [where p = p and mem = mem and this = 0 and v = "()"
      and tp_default = "()" and count = 3 and obj = 1 and at_timeout = p and wakeups = "[]"
      and time_limit = 50]
  note U = invariant_preserved [where p = q and mem = mem and this = 0 and v = "()"]
  from T h1 have a: "size_impl (snd (acquire 0 p)) \<le> managed_count (snd (acquire 0 p))"
    by blast
  from T h1 pu have b1: "size_impl p1 \<le> managed_count p1" by blast
  from T h2 cap pu have b2: "managed_count p1 \<le> capacity p1" by blast
  from T re have c1: "size_impl p2 = 3 \<and> managed_count p2 = 3" by blast
  from T szc re have c2: "managed_count p2 \<le> capacity p2" by blast
  from T h2 ne have d: "managed_count (fst (snd (allocate 0 () p mem)))
       \<le> capacity (fst (snd (allocate 0 () p mem)))" by blast
  from U e have "managed_count (fst (snd (allocate 0 () q mem))) = managed_count q + 1"
    by blast
  with mq have f: "managed_count (fst (snd (allocate 0 () q mem))) = 3" by simp
  from T aw env1 have g1: "size_impl p3 \<le> managed_count p3" by blast
  from T aw env2 have g2: "managed_count p3 \<le> capacity p3" by blast
  from a b1 b2 c1 c2 d f g1 g2 pu em re rv aw show ?thesis
    unfolding p_def q_def mem_def by blast
qed

end
